theory Spec2Isabelle
  imports Complex_Main "HOL-Library.Sublist"
begin

section \<open>JavaScript numbers\<close>

text \<open>
  The \<open>percent\<close> prop is a JavaScript Number: a finite double, one of the two infinities,
  or NaN. \<open>Fin r\<close> is the finite Number of value \<open>r\<close>. Every arithmetic operation
  returns the exact result rounded to the nearest double, ties to even, as IEEE 754
  prescribes; a result beyond the largest double is an infinity. Zero carries no sign: no
  operation of the component divides by zero, and both zeros print as \<open>0\<close>. The theorems
  quantify over every real \<open>r\<close>, so they hold for every double.
\<close>

datatype number = Fin real | PosInf | NegInf | NaN

subsection \<open>Rounding to the nearest double\<close>

text \<open>Rounding to the nearest integer, ties to even.\<close>

definition rne :: "real \<Rightarrow> int" where
  "rne x =
     (let f = \<lfloor>x\<rfloor>; d = x - of_int f
      in if d < 1 / 2 then f else if 1 / 2 < d then f + 1 else if even f then f else f + 1)"

text \<open>
  A double has a significand of 53 bits. A value \<open>0 \<le> x < 2 ^ 53\<close> is doubled until it
  reaches \<open>2 ^ 52\<close>, rounded to an integer there and scaled back; the count of doublings
  stops at 1074, the exponent of the smallest subnormal. A value from \<open>2 ^ 53\<close> on is halved
  until it is below \<open>2 ^ 53\<close>, at most 971 times, the exponent of the largest double.
\<close>

fun round_up :: "nat \<Rightarrow> real \<Rightarrow> real" where
  "round_up 0 x = of_int (rne x)"
| "round_up (Suc n) x = (if 2 ^ 52 \<le> x then of_int (rne x) else round_up n (2 * x) / 2)"

fun round_down :: "nat \<Rightarrow> real \<Rightarrow> real" where
  "round_down 0 x = of_int (rne x)"
| "round_down (Suc n) x = (if x < 2 ^ 53 then of_int (rne x) else 2 * round_down n (x / 2))"

definition round_pos :: "real \<Rightarrow> real" where
  "round_pos x = (if x < 2 ^ 53 then round_up 1074 x else round_down 971 x)"

definition round_num :: "real \<Rightarrow> number" where
  "round_num x =
     (let m = round_pos \<bar>x\<bar>
      in if 2 ^ 1024 \<le> m then (if 0 < x then PosInf else NegInf)
         else Fin (if 0 \<le> x then m else - m))"

text \<open>
  A decimal literal of the source denotes the double nearest to it. The literals
  \<open>0.5\<close>, \<open>2\<close>, \<open>45\<close> and \<open>100\<close> are doubles themselves and are written \<open>Fin\<close>.
\<close>

definition lit :: "real \<Rightarrow> number" where
  "lit x = round_num x"

text \<open>
  The doubles nearest to \<open>0.01\<close>, \<open>0.99\<close>, \<open>0.49\<close> and \<open>44.1\<close>, as significand and
  exponent. The first three lie below the decimal value, the last above it.
\<close>

definition d001 :: real where
  "d001 = 5764607523034235 / 2 ^ 59"

definition d099 :: real where
  "d099 = 4458563631096791 / 2 ^ 52"

definition d049 :: real where
  "d049 = 2206763817411543 / 2 ^ 52"

definition d441 :: real where
  "d441 = 6206523236469965 / 2 ^ 47"

subsection \<open>Operators\<close>

text \<open>The operator \<open>/\<close>.\<close>

fun num_div :: "number \<Rightarrow> number \<Rightarrow> number" where
  "num_div NaN y = NaN"
| "num_div x NaN = NaN"
| "num_div (Fin a) (Fin b) =
     (if b = 0 then (if a = 0 then NaN else if 0 < a then PosInf else NegInf)
      else round_num (a / b))"
| "num_div (Fin a) PosInf = Fin 0"
| "num_div (Fin a) NegInf = Fin 0"
| "num_div PosInf (Fin b) = (if 0 \<le> b then PosInf else NegInf)"
| "num_div NegInf (Fin b) = (if 0 \<le> b then NegInf else PosInf)"
| "num_div PosInf PosInf = NaN"
| "num_div PosInf NegInf = NaN"
| "num_div NegInf PosInf = NaN"
| "num_div NegInf NegInf = NaN"

text \<open>The binary operator \<open>-\<close>.\<close>

fun num_sub :: "number \<Rightarrow> number \<Rightarrow> number" where
  "num_sub NaN y = NaN"
| "num_sub x NaN = NaN"
| "num_sub (Fin a) (Fin b) = round_num (a - b)"
| "num_sub (Fin a) PosInf = NegInf"
| "num_sub (Fin a) NegInf = PosInf"
| "num_sub PosInf (Fin b) = PosInf"
| "num_sub NegInf (Fin b) = NegInf"
| "num_sub PosInf PosInf = NaN"
| "num_sub PosInf NegInf = PosInf"
| "num_sub NegInf PosInf = NegInf"
| "num_sub NegInf NegInf = NaN"

text \<open>The operator \<open>*\<close>.\<close>

fun num_mul :: "number \<Rightarrow> number \<Rightarrow> number" where
  "num_mul NaN y = NaN"
| "num_mul x NaN = NaN"
| "num_mul (Fin a) (Fin b) = round_num (a * b)"
| "num_mul (Fin a) PosInf = (if a = 0 then NaN else if 0 < a then PosInf else NegInf)"
| "num_mul (Fin a) NegInf = (if a = 0 then NaN else if 0 < a then NegInf else PosInf)"
| "num_mul PosInf (Fin b) = (if b = 0 then NaN else if 0 < b then PosInf else NegInf)"
| "num_mul NegInf (Fin b) = (if b = 0 then NaN else if 0 < b then NegInf else PosInf)"
| "num_mul PosInf PosInf = PosInf"
| "num_mul PosInf NegInf = NegInf"
| "num_mul NegInf PosInf = NegInf"
| "num_mul NegInf NegInf = PosInf"

text \<open>\<open>Math.abs\<close>, which is exact.\<close>

fun num_abs :: "number \<Rightarrow> number" where
  "num_abs (Fin a) = Fin \<bar>a\<bar>"
| "num_abs PosInf = PosInf"
| "num_abs NegInf = PosInf"
| "num_abs NaN = NaN"

text \<open>
  The relational operators. Every comparison with NaN is false, so \<open>x >= y\<close> is not the
  negation of \<open>x < y\<close>.
\<close>

fun num_lt :: "number \<Rightarrow> number \<Rightarrow> bool" where
  "num_lt (Fin a) (Fin b) = (a < b)"
| "num_lt (Fin a) PosInf = True"
| "num_lt NegInf (Fin b) = True"
| "num_lt NegInf PosInf = True"
| "num_lt x y = False"

fun num_le :: "number \<Rightarrow> number \<Rightarrow> bool" where
  "num_le (Fin a) (Fin b) = (a \<le> b)"
| "num_le (Fin a) PosInf = True"
| "num_le NegInf (Fin b) = True"
| "num_le NegInf PosInf = True"
| "num_le PosInf PosInf = True"
| "num_le NegInf NegInf = True"
| "num_le x y = False"

definition num_gt :: "number \<Rightarrow> number \<Rightarrow> bool" where
  "num_gt x y = num_lt y x"

definition num_ge :: "number \<Rightarrow> number \<Rightarrow> bool" where
  "num_ge x y = num_le y x"

section \<open>JavaScript strings\<close>

text \<open>
  Phase and hemisphere labels are strings over the code points 0 to 255.
  \<open>String.prototype.toLowerCase\<close> maps A to Z and the upper-case letters of the Latin-1
  block (192 to 222 without the multiplication sign 215) to the code point 32 above, and
  leaves every other code point of that range alone.
\<close>

definition lower_char :: "char \<Rightarrow> char" where
  "lower_char c =
     (let n = (of_char c :: nat)
      in if (65 \<le> n \<and> n \<le> 90) \<or> (192 \<le> n \<and> n \<le> 222 \<and> n \<noteq> 215)
         then char_of (n + 32) else c)"

definition toLowerCase :: "string \<Rightarrow> string" where
  "toLowerCase s = map lower_char s"

text \<open>
  \<open>s.includes(t)\<close>: the search of \<open>t\<close> at every position of \<open>s\<close>, from the left.
\<close>

fun includes_str :: "string \<Rightarrow> string \<Rightarrow> bool" where
  "includes_str [] t = (t = [])"
| "includes_str (c # cs) t = (prefix t (c # cs) \<or> includes_str cs t)"

section \<open>The moon component\<close>

subsection \<open>Props\<close>

text \<open>
  What the parent passes: each prop is present or absent. \<open>defineProps\<close> fills in the
  declared default of an absent prop (\<open>percent\<close>: 0, \<open>phase\<close>: New Moon,
  \<open>hemisphere\<close>: Northern).
\<close>

record attrs =
  percent_attr :: "number option"
  phase_attr :: "string option"
  hemisphere_attr :: "string option"

record props =
  percent :: number
  phase :: string
  hemisphere :: string

definition defineProps :: "attrs \<Rightarrow> props" where
  "defineProps a =
     \<lparr> percent = (case percent_attr a of None \<Rightarrow> Fin 0 | Some x \<Rightarrow> x),
       phase = (case phase_attr a of None \<Rightarrow> ''New Moon'' | Some s \<Rightarrow> s),
       hemisphere = (case hemisphere_attr a of None \<Rightarrow> ''Northern'' | Some s \<Rightarrow> s) \<rparr>"

subsection \<open>Path data\<close>

text \<open>
  The component returns the \<open>d\<close> attribute of an SVG path. The model keeps the path as
  the sequence of its commands: \<open>M x,y\<close> is \<open>MoveTo (x, y)\<close>,
  \<open>A rx,ry rot large,sweep x,y\<close> is \<open>Arc rx ry rot large sweep (x, y)\<close>, and \<open>Z\<close> is
  \<open>ClosePath\<close>. The empty string is the empty sequence. Coordinates, the rotation and the
  flags are literals of the source; a radius is a Number, since the terminator's horizontal
  radius is computed.
\<close>

type_synonym point = "real \<times> real"

datatype seg =
    MoveTo point
  | Arc number number real nat nat point
  | ClosePath

text \<open>\<open>'M 50,5 A 45,45 0 1,1 50,95 A 45,45 0 1,1 50,5'\<close>, the full circle.\<close>

definition FullDisk :: "seg list" where
  "FullDisk =
     [MoveTo (50, 5), Arc (Fin 45) (Fin 45) 0 1 1 (50, 95), Arc (Fin 45) (Fin 45) 0 1 1 (50, 5)]"

text \<open>\<open>''\<close>, the empty path.\<close>

definition Empty :: "seg list" where
  "Empty = []"

subsection \<open>The computed properties\<close>

definition isWaxing :: "props \<Rightarrow> bool" where
  "isWaxing ps =
     (let p = toLowerCase (phase ps)
      in includes_str p ''waxing'' \<or> includes_str p ''first'')"

text \<open>\<open>const p = props.percent / 100\<close>.\<close>

definition p_norm :: "props \<Rightarrow> number" where
  "p_norm ps = num_div (percent ps) (Fin 100)"

text \<open>\<open>let litRight = isWaxing.value; if (props.hemisphere === 'Southern') litRight = !litRight\<close>.\<close>

definition litRight :: "props \<Rightarrow> bool" where
  "litRight ps =
     (let lr = isWaxing ps
      in if hemisphere ps = ''Southern'' then \<not> lr else lr)"

text \<open>\<open>const rx = 45 * 2 * Math.abs(0.5 - p)\<close>.\<close>

definition rx :: "number \<Rightarrow> number" where
  "rx p = num_mul (num_mul (Fin 45) (Fin 2)) (num_abs (num_sub (Fin 0.5) p))"

text \<open>The outer arc, one of two literals chosen by \<open>litRight\<close>.\<close>

definition outerArc :: "bool \<Rightarrow> seg list" where
  "outerArc lr =
     (if lr then [MoveTo (50, 5), Arc (Fin 45) (Fin 45) 0 0 1 (50, 95)]
      else [MoveTo (50, 95), Arc (Fin 45) (Fin 45) 0 0 1 (50, 5)])"

text \<open>
  \<open>let innerSweep = 0; if (p > 0.5) innerSweep = 1;
  if (!litRight) innerSweep = innerSweep ? 0 : 1\<close>.
\<close>

definition innerSweep :: "number \<Rightarrow> bool \<Rightarrow> nat" where
  "innerSweep p lr =
     (let s = (if num_gt p (Fin 0.5) then 1 else 0)
      in if \<not> lr then (if s \<noteq> 0 then 0 else 1) else s)"

text \<open>The terminator arc, back to the start of the outer arc.\<close>

definition terminator :: "number \<Rightarrow> bool \<Rightarrow> seg" where
  "terminator p lr =
     Arc (rx p) (Fin 45) 0 0 (innerSweep p lr) (if lr then (50, 5) else (50, 95))"

definition pathD :: "props \<Rightarrow> seg list" where
  "pathD ps =
     (let p = p_norm ps;
          lr = litRight ps
      in if num_ge p (lit 0.99) then FullDisk
         else if num_le p (lit 0.01) then Empty
         else outerArc lr @ [terminator p lr, ClosePath])"

subsection \<open>Reading a path\<close>

text \<open>
  The lit area is drawn as two arcs, \<open>[MoveTo s, outer arc, terminator arc, ClosePath]\<close>.
  These functions read the terminator arc of such a path and the fields of an arc; the full
  circle and the empty path have no terminator.
\<close>

definition terminator_of :: "seg list \<Rightarrow> seg option" where
  "terminator_of path = (case path of [MoveTo s, Arc a b c d e f, t, ClosePath] \<Rightarrow> Some t | _ \<Rightarrow> None)"

fun arc_rx :: "seg \<Rightarrow> number option" where
  "arc_rx (Arc a b rot large sweep e) = Some a"
| "arc_rx s = None"

fun arc_sweep :: "seg \<Rightarrow> nat option" where
  "arc_sweep (Arc a b rot large sweep e) = Some sweep"
| "arc_sweep s = None"

definition terminator_rx :: "seg list \<Rightarrow> number option" where
  "terminator_rx path = (case terminator_of path of None \<Rightarrow> None | Some t \<Rightarrow> arc_rx t)"

definition terminator_sweep :: "seg list \<Rightarrow> nat option" where
  "terminator_sweep path = (case terminator_of path of None \<Rightarrow> None | Some t \<Rightarrow> arc_sweep t)"

text \<open>The radii of a command, and a path none of whose radii is NaN.\<close>

fun radii :: "seg \<Rightarrow> number list" where
  "radii (Arc a b rot large sweep e) = [a, b]"
| "radii s = []"

definition nan_free :: "seg list \<Rightarrow> bool" where
  "nan_free path = list_all (\<lambda>s. list_all (\<lambda>r. r \<noteq> NaN) (radii s)) path"

subsection \<open>The disk\<close>

text \<open>
  The template draws the moon as \<open><circle cx="50" cy="50" r="45">\<close> in a view box whose
  y axis points down: the topmost point of the disk is \<open>(50, 5)\<close>, the bottommost
  \<open>(50, 95)\<close>.
\<close>

definition disk_centre :: point where
  "disk_centre = (50, 50)"

definition disk_radius :: real where
  "disk_radius = 45"

definition north :: point where
  "north = (fst disk_centre, snd disk_centre - disk_radius)"

definition south :: point where
  "south = (fst disk_centre, snd disk_centre + disk_radius)"

text \<open>
  The meaning of a circular arc command whose end points are opposite ends of a diameter:
  its centre is their midpoint, and with sweep flag 1 it runs in the direction of growing
  angle, from the start vector \<open>(dx, dy)\<close> through \<open>(- dy, dx)\<close>; with sweep flag 0 through
  \<open>(dy, - dx)\<close>. \<open>half_arc_mid s sweep e\<close> is the point halfway along the arc from \<open>s\<close>
  to \<open>e\<close>.
\<close>

definition half_arc_mid :: "point \<Rightarrow> nat \<Rightarrow> point \<Rightarrow> point" where
  "half_arc_mid s sweep e =
     (let cx = (fst s + fst e) / 2; cy = (snd s + snd e) / 2;
          dx = fst s - cx; dy = snd s - cy
      in if sweep = 1 then (cx - dy, cy + dx) else (cx + dy, cy - dx))"

text \<open>
  The points of an elliptical arc command with radii \<open>a\<close> and \<open>b\<close> and rotation 0, whose
  end points \<open>s\<close> and \<open>e\<close> are the two ends of the vertical axis of its ellipse
  (\<open>axis_arc\<close>). The centre is the midpoint of the end points, and the arc is the image of
  a half turn of the unit circle from the start vector: with sweep flag 1 in the direction
  of growing angle, with sweep flag 0 against it. \<open>arc_point s a b sweep e t\<close> is the point
  at the angle \<open>t\<close> from the start, \<open>0 < t < pi\<close> for the points strictly between the
  end points. At \<open>a = b\<close> and \<open>t = pi / 2\<close> it is \<open>half_arc_mid\<close>; at \<open>a = 0\<close> the
  arc is the straight line between the end points.
\<close>

definition axis_arc :: "point \<Rightarrow> real \<Rightarrow> point \<Rightarrow> bool" where
  "axis_arc s b e \<longleftrightarrow> fst s = fst e \<and> \<bar>snd s - snd e\<bar> = 2 * b \<and> 0 < b"

definition arc_point :: "point \<Rightarrow> real \<Rightarrow> real \<Rightarrow> nat \<Rightarrow> point \<Rightarrow> real \<Rightarrow> point" where
  "arc_point s a b sweep e t =
     (let cx = (fst s + fst e) / 2; cy = (snd s + snd e) / 2;
          uy = (snd s - cy) / b
      in if sweep = 1 then (cx - a * uy * sin t, cy + b * uy * cos t)
         else (cx + a * uy * sin t, cy + b * uy * cos t))"

text \<open>
  A path that does not intersect itself: the empty path, or two arcs on a common vertical
  axis, the second back to the start of the first, closed or not, that have finite radii
  and meet at their end points only.
\<close>

definition simple_path :: "seg list \<Rightarrow> bool" where
  "simple_path path \<longleftrightarrow>
     path = [] \<or>
     (\<exists>s e a b l1 w1 c d l2 w2 tl.
        path = MoveTo s # Arc (Fin a) (Fin b) 0 l1 w1 e # Arc (Fin c) (Fin d) 0 l2 w2 s # tl
        \<and> (tl = [] \<or> tl = [ClosePath])
        \<and> 0 \<le> a \<and> 0 \<le> c \<and> axis_arc s b e \<and> axis_arc e d s
        \<and> (\<forall>t1 t2. 0 < t1 \<and> t1 < pi \<and> 0 < t2 \<and> t2 < pi
              \<longrightarrow> arc_point s a b w1 e t1 \<noteq> arc_point e c d w2 s t2))"

subsection \<open>Clamping, as the specification words it\<close>

text \<open>
  \<open>spec_clamp\<close> is the specification's "percent clamped to [0,100]"; the component has no
  such step. It is compared with the component in the theorems below.
\<close>

fun spec_clamp :: "number \<Rightarrow> number" where
  "spec_clamp (Fin r) = Fin (max 0 (min 100 r))"
| "spec_clamp PosInf = Fin 100"
| "spec_clamp NegInf = Fin 0"
| "spec_clamp NaN = NaN"

section \<open>Properties\<close>

subsection \<open>Rounding\<close>

lemma rne_of_int [simp]: "rne (of_int k) = k"
  by (simp add: rne_def)

lemma rne_0 [simp]: "rne 0 = 0"
  using rne_of_int [of 0] by simp

lemma rne_bounds: "\<lfloor>x\<rfloor> \<le> rne x" "rne x \<le> \<lfloor>x\<rfloor> + 1"
  by (simp_all add: rne_def Let_def)

lemma rne_mono:
  assumes "x \<le> y"
  shows "rne x \<le> rne y"
proof (cases "\<lfloor>x\<rfloor> < \<lfloor>y\<rfloor>")
  case True
  then show ?thesis
    using rne_bounds(2) [of x] rne_bounds(1) [of y] by linarith
next
  case False
  then have "\<lfloor>x\<rfloor> = \<lfloor>y\<rfloor>"
    using floor_mono [OF assms] by linarith
  then show ?thesis
    using assms by (auto simp: rne_def Let_def)
qed

lemma rne_err: "\<bar>of_int (rne x) - x\<bar> \<le> 1 / 2"
proof -
  have "of_int \<lfloor>x\<rfloor> \<le> x" "x < of_int \<lfloor>x\<rfloor> + 1"
    by linarith+
  then show ?thesis
    by (auto simp: rne_def Let_def)
qed

lemma round_up_0 [simp]: "round_up n 0 = 0"
  by (induction n) simp_all

lemma rne_ge_of_int: "of_int k \<le> x \<Longrightarrow> k \<le> rne x"
  using rne_mono [of "of_int k" x] by simp

lemma rne_le_of_int: "x \<le> of_int k \<Longrightarrow> rne x \<le> k"
  using rne_mono [of x "of_int k"] by simp

lemma rne_le_53: "x \<le> 2 ^ 53 \<Longrightarrow> (of_int (rne x) :: real) \<le> 2 ^ 53"
proof -
  assume "x \<le> 2 ^ 53"
  then have "rne x \<le> 2 ^ 53"
    by (intro rne_le_of_int) simp
  then have "(of_int (rne x) :: real) \<le> of_int (2 ^ 53)"
    by (simp only: of_int_le_iff)
  then show ?thesis by simp
qed

lemma round_up_le: "x \<le> 2 ^ 53 \<Longrightarrow> round_up n x \<le> 2 ^ 53"
proof (induction n arbitrary: x)
  case 0
  from rne_le_53 [OF this] show ?case by simp
next
  case (Suc n)
  show ?case
  proof (cases "2 ^ 52 \<le> x")
    case True
    with rne_le_53 [OF Suc.prems] show ?thesis by simp
  next
    case False
    then have "2 * x \<le> 2 ^ 53" by simp
    from Suc.IH [OF this] have "round_up n (2 * x) / 2 \<le> 2 ^ 53" by simp
    with False show ?thesis by simp
  qed
qed

lemma round_up_mono: "x \<le> y \<Longrightarrow> round_up n x \<le> round_up n y"
proof (induction n arbitrary: x y)
  case 0
  then show ?case by (simp add: rne_mono)
next
  case (Suc n)
  show ?case
  proof (cases "2 ^ 52 \<le> x")
    case True
    with Suc.prems show ?thesis by (simp add: rne_mono)
  next
    case x: False
    show ?thesis
    proof (cases "2 ^ 52 \<le> y")
      case True
      have "2 * x \<le> 2 ^ 53" using x by simp
      then have "round_up n (2 * x) / 2 \<le> 2 ^ 52"
        using round_up_le [of "2 * x" n] by simp
      moreover have "(2 ^ 52 :: int) \<le> rne y"
        using True by (intro rne_ge_of_int) simp
      then have "(of_int (2 ^ 52) :: real) \<le> of_int (rne y)"
        by (simp only: of_int_le_iff)
      ultimately show ?thesis using x True by simp
    next
      case False
      with x Suc.IH [of "2 * x" "2 * y"] Suc.prems show ?thesis by simp
    qed
  qed
qed

lemma round_up_err: "\<bar>round_up n x - x\<bar> \<le> 1 / 2"
proof (induction n arbitrary: x)
  case 0
  show ?case using rne_err [of x] by simp
next
  case (Suc n)
  show ?case
  proof (cases "2 ^ 52 \<le> x")
    case True
    then show ?thesis using rne_err [of x] by simp
  next
    case False
    have "\<bar>round_up n (2 * x) / 2 - x\<bar> = \<bar>round_up n (2 * x) - 2 * x\<bar> / 2"
      by (simp add: abs_if field_simps)
    with Suc.IH [of "2 * x"] False show ?thesis by simp
  qed
qed

lemma round_up_err_scaled:
  "k \<le> n \<Longrightarrow> x * 2 ^ k < 2 ^ 53 \<Longrightarrow> \<bar>round_up n x - x\<bar> \<le> 1 / 2 / 2 ^ k"
proof (induction k arbitrary: n x)
  case 0
  show ?case using round_up_err [of n x] by simp
next
  case (Suc k)
  then obtain m where n: "n = Suc m" by (cases n) simp_all
  have "(1::real) \<le> 2 ^ k" by simp
  then have "x * 1 \<le> x * 2 ^ k \<or> x < 0"
    by (metis less_eq_real_def mult_left_mono not_less)
  moreover have "x * 2 ^ k < 2 ^ 52" using Suc.prems(2) by simp
  ultimately have x: "x < 2 ^ 52" by auto
  have "\<bar>round_up m (2 * x) - 2 * x\<bar> \<le> 1 / 2 / 2 ^ k"
    using Suc.prems n by (intro Suc.IH) (simp_all add: mult.assoc)
  moreover have "\<bar>round_up m (2 * x) / 2 - x\<bar> = \<bar>round_up m (2 * x) - 2 * x\<bar> / 2"
    by (simp add: abs_if field_simps)
  ultimately show ?case using x n by (simp add: field_simps)
qed

lemma round_up_scale:
  "j \<le> n \<Longrightarrow> 2 ^ 52 \<le> x * 2 ^ j \<Longrightarrow> x * 2 ^ j < 2 ^ 53
     \<Longrightarrow> round_up n x = of_int (rne (x * 2 ^ j)) / 2 ^ j"
proof (induction j arbitrary: n x)
  case 0
  then show ?case by (cases n) simp_all
next
  case (Suc j)
  then obtain m where n: "n = Suc m" by (cases n) simp_all
  have "(1::real) \<le> 2 ^ j" by simp
  then have "x * 1 \<le> x * 2 ^ j \<or> x < 0"
    by (metis less_eq_real_def mult_left_mono not_less)
  moreover have "x * 2 ^ j < 2 ^ 52" using Suc.prems(3) by simp
  ultimately have x: "x < 2 ^ 52" by auto
  have "round_up m (2 * x) = of_int (rne (2 * x * 2 ^ j)) / 2 ^ j"
    using Suc.prems n by (intro Suc.IH) (simp_all add: mult.assoc)
  then show ?case using x n by (simp add: mult.assoc mult.left_commute)
qed

lemma round_down_ge: "2 ^ 52 \<le> x \<Longrightarrow> 2 ^ 52 \<le> round_down n x"
proof (induction n arbitrary: x)
  case 0
  have "(2 ^ 52 :: int) \<le> rne x"
    using 0 by (intro rne_ge_of_int) simp
  then have "(of_int (2 ^ 52) :: real) \<le> of_int (rne x)"
    by (simp only: of_int_le_iff)
  then show ?case by simp
next
  case (Suc n)
  have "(2 ^ 52 :: int) \<le> rne x"
    using Suc.prems by (intro rne_ge_of_int) simp
  then have "(of_int (2 ^ 52) :: real) \<le> of_int (rne x)"
    by (simp only: of_int_le_iff)
  then have a: "(2 ^ 52 :: real) \<le> of_int (rne x)" by simp
  show ?case
  proof (cases "x < 2 ^ 53")
    case True
    with a show ?thesis by simp
  next
    case False
    then have "2 ^ 52 \<le> x / 2" by simp
    from Suc.IH [OF this] False show ?thesis by simp
  qed
qed

lemma round_down_ge53: "2 ^ 53 \<le> x \<Longrightarrow> 2 ^ 53 \<le> round_down n x"
proof (cases n)
  case 0
  assume x: "2 ^ 53 \<le> x"
  have "(2 ^ 53 :: int) \<le> rne x"
    using x by (intro rne_ge_of_int) simp
  then have "(of_int (2 ^ 53) :: real) \<le> of_int (rne x)"
    by (simp only: of_int_le_iff)
  with 0 show ?thesis by simp
next
  case (Suc m)
  assume x: "2 ^ 53 \<le> x"
  then have "2 ^ 52 \<le> x / 2" by simp
  from round_down_ge [OF this, of m] x Suc show ?thesis by simp
qed

lemma round_down_mono: "x \<le> y \<Longrightarrow> round_down n x \<le> round_down n y"
proof (induction n arbitrary: x y)
  case 0
  then show ?case by (simp add: rne_mono)
next
  case (Suc n)
  show ?case
  proof (cases "y < 2 ^ 53")
    case True
    with Suc.prems show ?thesis by (simp add: rne_mono)
  next
    case y: False
    show ?thesis
    proof (cases "x < 2 ^ 53")
      case True
      have "rne x \<le> 2 ^ 53"
        using True by (intro rne_le_of_int) simp
      then have "(of_int (rne x) :: real) \<le> of_int (2 ^ 53)"
        by (simp only: of_int_le_iff)
      moreover have "2 ^ 52 \<le> round_down n (y / 2)"
        using y by (intro round_down_ge) simp
      ultimately show ?thesis using y True by simp
    next
      case False
      with y Suc.IH [of "x / 2" "y / 2"] Suc.prems show ?thesis by simp
    qed
  qed
qed

lemma round_pos_mono: "x \<le> y \<Longrightarrow> round_pos x \<le> round_pos y"
proof -
  assume xy: "x \<le> y"
  consider "y < 2 ^ 53" | "x < 2 ^ 53" "2 ^ 53 \<le> y" | "2 ^ 53 \<le> x"
    by linarith
  then show ?thesis
  proof cases
    case 1
    with xy show ?thesis by (simp add: round_pos_def round_up_mono)
  next
    case 2
    have "round_up 1074 x \<le> 2 ^ 53"
      using 2(1) by (intro round_up_le) simp
    also have "\<dots> \<le> round_down 971 y"
      using 2(2) by (rule round_down_ge53)
    finally show ?thesis using 2 by (simp add: round_pos_def)
  next
    case 3
    with xy show ?thesis by (simp add: round_pos_def round_down_mono)
  qed
qed

lemma round_pos_0 [simp]: "round_pos 0 = 0"
  by (simp add: round_pos_def)

lemma round_pos_nonneg: "0 \<le> x \<Longrightarrow> 0 \<le> round_pos x"
  using round_pos_mono [of 0 x] by simp

subsection \<open>Rounded numbers\<close>

lemma round_num_not_NaN [simp]: "round_num x \<noteq> NaN"
  by (simp add: round_num_def Let_def)

lemma round_num_0 [simp]: "round_num 0 = Fin 0"
  by (simp add: round_num_def)

lemma round_num_mono:
  assumes "x \<le> y"
  shows "num_le (round_num x) (round_num y)"
proof -
  have a: "0 \<le> x \<Longrightarrow> round_pos \<bar>x\<bar> \<le> round_pos \<bar>y\<bar>"
    using assms by (intro round_pos_mono) simp
  have b: "y \<le> 0 \<Longrightarrow> round_pos \<bar>y\<bar> \<le> round_pos \<bar>x\<bar>"
    using assms by (intro round_pos_mono) simp
  have c: "0 \<le> round_pos \<bar>x\<bar>" "0 \<le> round_pos \<bar>y\<bar>"
    by (simp_all add: round_pos_nonneg)
  consider "0 \<le> x" | "x < 0" "0 \<le> y" | "y < 0"
    by linarith
  then show ?thesis
  proof cases
    case 1
    then have "0 \<le> y" using assms by simp
    with 1 a c show ?thesis
      by (cases "x = 0") (auto simp: round_num_def Let_def)
  next
    case 2
    with c show ?thesis
      by (cases "y = 0") (auto simp: round_num_def Let_def)
  next
    case 3
    then have "x < 0" "y \<le> 0" using assms by simp_all
    with 3 b c show ?thesis
      by (auto simp: round_num_def Let_def)
  qed
qed

lemma round_num_eval:
  assumes "j \<le> 1074" and "2 ^ 52 \<le> \<bar>x\<bar> * 2 ^ j" and "\<bar>x\<bar> * 2 ^ j < 2 ^ 53"
  shows "round_num x = Fin (sgn x * of_int (rne (\<bar>x\<bar> * 2 ^ j)) / 2 ^ j)"
proof -
  have "(1::real) \<le> 2 ^ j" by simp
  then have "\<bar>x\<bar> * 1 \<le> \<bar>x\<bar> * 2 ^ j"
    by (intro mult_left_mono) simp_all
  with assms(3) have small: "\<bar>x\<bar> < 2 ^ 53" by simp
  have m: "round_pos \<bar>x\<bar> = of_int (rne (\<bar>x\<bar> * 2 ^ j)) / 2 ^ j"
    using small round_up_scale [OF assms] by (simp add: round_pos_def)
  have "round_pos \<bar>x\<bar> \<le> 2 ^ 53"
    using small round_up_le [of "\<bar>x\<bar>" 1074] by (simp add: round_pos_def)
  also have "\<dots> < (2 ^ 1024 :: real)" by simp
  finally have fin: "\<not> 2 ^ 1024 \<le> round_pos \<bar>x\<bar>" by simp
  have "x \<noteq> 0" using assms(2) by auto
  then show ?thesis
    using fin m by (simp add: round_num_def Let_def sgn_if)
qed

lemma round_num_err:
  assumes "k \<le> 1074" and "\<bar>x\<bar> * 2 ^ k < 2 ^ 53"
  shows "\<exists>y. round_num x = Fin y \<and> \<bar>y - x\<bar> \<le> 1 / 2 / 2 ^ k"
proof -
  have "(1::real) \<le> 2 ^ k" by simp
  then have "\<bar>x\<bar> * 1 \<le> \<bar>x\<bar> * 2 ^ k"
    by (intro mult_left_mono) simp_all
  with assms(2) have small: "\<bar>x\<bar> < 2 ^ 53" by simp
  have m: "round_pos \<bar>x\<bar> = round_up 1074 \<bar>x\<bar>"
    using small by (simp add: round_pos_def)
  have e: "\<bar>round_pos \<bar>x\<bar> - \<bar>x\<bar>\<bar> \<le> 1 / 2 / 2 ^ k"
    unfolding m using assms by (rule round_up_err_scaled)
  have "round_pos \<bar>x\<bar> \<le> 2 ^ 53"
    using small round_up_le [of "\<bar>x\<bar>" 1074] by (simp add: m)
  also have "\<dots> < (2 ^ 1024 :: real)" by simp
  finally have fin: "\<not> 2 ^ 1024 \<le> round_pos \<bar>x\<bar>" by simp
  show ?thesis
  proof (cases "0 \<le> x")
    case True
    with fin e show ?thesis by (simp add: round_num_def Let_def)
  next
    case False
    then have "\<bar>- round_pos \<bar>x\<bar> - x\<bar> = \<bar>round_pos \<bar>x\<bar> - \<bar>x\<bar>\<bar>" by simp
    with False fin e show ?thesis by (simp add: round_num_def Let_def)
  qed
qed

text \<open>The doubles of the literals, and the values the component computes from them.\<close>

lemma round_001: "round_num (1 / 100) = Fin d001"
  using round_num_eval [of 59 "1 / 100"] by (simp add: rne_def d001_def)

lemma round_099: "round_num (99 / 100) = Fin d099"
  using round_num_eval [of 53 "99 / 100"] by (simp add: rne_def d099_def)

lemma round_441: "round_num (441 / 10) = Fin d441"
  using round_num_eval [of 47 "441 / 10"] by (simp add: rne_def d441_def)

lemma lit_001: "lit 0.01 = Fin d001"
  using round_001 by (simp add: lit_def)

lemma lit_099: "lit 0.99 = Fin d099"
  using round_099 by (simp add: lit_def)

lemma lit_441: "lit 44.1 = Fin d441"
  using round_441 by (simp add: lit_def)

lemma lit_norm: "lit (1 / 100) = Fin d001" "lit (99 / 100) = Fin d099" "lit (441 / 10) = Fin d441"
  by (simp_all add: lit_def round_001 round_099 round_441)

lemma lit_exact: "lit 0.5 = Fin 0.5" "lit 2 = Fin 2" "lit 45 = Fin 45" "lit 100 = Fin 100"
  using round_num_eval [of 53 "1 / 2"] round_num_eval [of 51 2] round_num_eval [of 47 45]
    round_num_eval [of 46 100]
  by (simp_all add: rne_def lit_def)

lemma round_90: "round_num 90 = Fin 90"
  using round_num_eval [of 46 90] by (simp add: rne_def)

lemma round_1: "round_num 1 = Fin 1"
  using round_num_eval [of 52 1] by (simp add: rne_def)

lemma round_quarter: "round_num (1 / 4) = Fin (1 / 4)" "round_num (- (1 / 4)) = Fin (- (1 / 4))"
  using round_num_eval [of 54 "1 / 4"] round_num_eval [of 54 "- (1 / 4)"]
  by (simp_all add: rne_def)

lemma round_three_quarters: "round_num (3 / 4) = Fin (3 / 4)"
  using round_num_eval [of 53 "3 / 4"] by (simp add: rne_def)

lemma round_half: "round_num (1 / 2) = Fin (1 / 2)"
  using round_num_eval [of 53 "1 / 2"] by (simp add: rne_def)

lemma round_45_2: "round_num (45 / 2) = Fin (45 / 2)"
  using round_num_eval [of 48 "45 / 2"] by (simp add: rne_def)

lemma round_049_hi: "round_num (1 / 2 - d001) = Fin d049"
  using round_num_eval [of 54 "1 / 2 - d001"] by (simp add: rne_def d001_def d049_def)

lemma round_049_lo: "round_num (1 / 2 - d099) = Fin (- d049)"
  using round_num_eval [of 54 "1 / 2 - d099"] by (simp add: rne_def d099_def d049_def)

lemma round_441_hi: "round_num (90 * d049) = Fin d441"
  using round_num_eval [of 47 "90 * d049"] by (simp add: rne_def d049_def d441_def)

lemma d_bounds:
  "0 < d001" "d001 < d099" "d099 < 1" "d001 < 1 / 2" "1 / 2 < d099" "0 < d049"
  "d049 < 1 / 2" "d441 < 45" "44.1 < d441" "1 / 100 < d001" "d099 < 99 / 100"
  by (simp_all add: d001_def d099_def d049_def d441_def)

text \<open>The order of numbers.\<close>

lemma num_le_not_lt: "num_le x y \<Longrightarrow> \<not> num_lt y x"
  by (cases x; cases y) simp_all

lemma num_lt_total: "x \<noteq> NaN \<Longrightarrow> y \<noteq> NaN \<Longrightarrow> \<not> num_le x y \<Longrightarrow> num_lt y x"
  by (cases x; cases y) simp_all

lemma num_between_Fin:
  assumes "num_lt (Fin a) x" and "num_lt x (Fin b)"
  shows "\<exists>q. x = Fin q \<and> a < q \<and> q < b"
  using assms by (cases x) simp_all

lemma num_le_between_Fin:
  assumes "num_le (Fin a) x" and "num_le x (Fin b)"
  shows "\<exists>q. x = Fin q \<and> a \<le> q \<and> q \<le> b"
  using assms by (cases x) simp_all

subsection \<open>Auxiliary facts\<close>

lemma includes_str_sublist: "includes_str s t \<longleftrightarrow> sublist t s"
  by (induction s) (auto simp: sublist_Cons_right)

lemma includes_str_iff: "includes_str s t \<longleftrightarrow> (\<exists>pre post. s = pre @ t @ post)"
  by (simp add: includes_str_sublist sublist_def)

lemma isWaxing_hemisphere [simp]: "isWaxing (ps\<lparr>hemisphere := h\<rparr>) = isWaxing ps"
  by (simp add: isWaxing_def)

lemma isWaxing_percent [simp]: "isWaxing (ps\<lparr>percent := x\<rparr>) = isWaxing ps"
  by (simp add: isWaxing_def)

lemma litRight_percent [simp]: "litRight (ps\<lparr>percent := x\<rparr>) = litRight ps"
  by (simp add: litRight_def)

lemma p_norm_Fin: "percent ps = Fin r \<Longrightarrow> p_norm ps = round_num (r / 100)"
  by (simp add: p_norm_def)

text \<open>A percent from 99 on passes the upper threshold, a percent up to 1 the lower one.\<close>

lemma p_norm_hi:
  assumes "percent ps = Fin r" and "99 \<le> r"
  shows "num_ge (p_norm ps) (lit 0.99)"
proof -
  have "num_le (round_num (99 / 100)) (round_num (r / 100))"
    using assms(2) by (intro round_num_mono) simp
  then show ?thesis
    using assms(1) by (simp add: p_norm_def num_ge_def lit_def)
qed

lemma p_norm_lo:
  assumes "percent ps = Fin r" and "r \<le> 1"
  shows "num_le (p_norm ps) (lit 0.01)"
proof -
  have "num_le (round_num (r / 100)) (round_num (1 / 100))"
    using assms(2) by (intro round_num_mono) simp
  then show ?thesis
    using assms(1) by (simp add: p_norm_def lit_def)
qed

lemma thresholds_apart: "num_le p (lit 0.01) \<Longrightarrow> \<not> num_ge p (lit 0.99)"
  using d_bounds(2) by (cases p) (simp_all add: lit_norm num_ge_def)

text \<open>
  The general case is reached by finite percents strictly between 1 and 99 only, and there
  \<open>p\<close> is a finite number strictly between the doubles of \<open>0.01\<close> and \<open>0.99\<close>.
\<close>

lemma general_case_finite:
  assumes "num_lt (lit 0.01) (p_norm ps)" and "num_lt (p_norm ps) (lit 0.99)"
  shows "\<exists>r q. percent ps = Fin r \<and> 1 < r \<and> r < 99
           \<and> p_norm ps = Fin q \<and> round_num (r / 100) = Fin q \<and> d001 < q \<and> q < d099"
proof -
  from num_between_Fin [OF assms [unfolded lit_001 lit_099]]
  obtain q where q: "p_norm ps = Fin q" "d001 < q" "q < d099" by blast
  obtain r where r: "percent ps = Fin r"
    using q(1) by (cases "percent ps") (simp_all add: p_norm_def)
  have "1 < r"
  proof (rule ccontr)
    assume "\<not> 1 < r"
    then have "num_le (p_norm ps) (lit 0.01)"
      using r p_norm_lo [of ps r] by simp
    with assms(1) show False by (simp add: num_le_not_lt)
  qed
  moreover have "r < 99"
  proof (rule ccontr)
    assume "\<not> r < 99"
    then have "num_ge (p_norm ps) (lit 0.99)"
      using r p_norm_hi [of ps r] by simp
    with assms(2) show False by (simp add: num_ge_def num_le_not_lt)
  qed
  ultimately show ?thesis
    using q r p_norm_Fin [OF r] by simp
qed

lemma pathD_general:
  assumes "p_norm ps = Fin q" and "d001 < q" and "q < d099"
  shows "pathD ps = outerArc (litRight ps) @ [terminator (Fin q) (litRight ps), ClosePath]"
  using assms by (simp add: pathD_def num_ge_def Let_def lit_norm)

lemma pathD_full: "num_ge (p_norm ps) (lit 0.99) \<Longrightarrow> pathD ps = FullDisk"
  by (simp add: pathD_def)

lemma pathD_empty: "num_le (p_norm ps) (lit 0.01) \<Longrightarrow> pathD ps = Empty"
  using thresholds_apart [of "p_norm ps"] by (simp add: pathD_def)

text \<open>
  The radius of the terminator in the general case: \<open>0.5 - p\<close> rounds to a number between
  the doubles of \<open>- 0.49\<close> and \<open>0.49\<close>, and 90 times its absolute value rounds to a number
  between 0 and the double of \<open>44.1\<close>.
\<close>

lemma rx_general:
  assumes "d001 < q" and "q < d099"
  shows "\<exists>d x. round_num (1 / 2 - q) = Fin d \<and> \<bar>d\<bar> \<le> d049
           \<and> round_num (90 * \<bar>d\<bar>) = Fin x \<and> rx (Fin q) = Fin x \<and> 0 \<le> x \<and> x \<le> d441"
proof -
  have "num_le (round_num (1 / 2 - d099)) (round_num (1 / 2 - q))"
    and "num_le (round_num (1 / 2 - q)) (round_num (1 / 2 - d001))"
    using assms by (intro round_num_mono, simp)+
  then have "num_le (Fin (- d049)) (round_num (1 / 2 - q))"
    and "num_le (round_num (1 / 2 - q)) (Fin d049)"
    by (simp_all add: round_049_lo round_049_hi)
  from num_le_between_Fin [OF this]
  obtain d where d: "round_num (1 / 2 - q) = Fin d" "- d049 \<le> d" "d \<le> d049" by blast
  then have ad: "\<bar>d\<bar> \<le> d049" by simp
  have "num_le (round_num 0) (round_num (90 * \<bar>d\<bar>))"
    and "num_le (round_num (90 * \<bar>d\<bar>)) (round_num (90 * d049))"
    using ad by (intro round_num_mono, simp)+
  then have "num_le (Fin 0) (round_num (90 * \<bar>d\<bar>))"
    and "num_le (round_num (90 * \<bar>d\<bar>)) (Fin d441)"
    by (simp_all add: round_441_hi)
  from num_le_between_Fin [OF this]
  obtain x where x: "round_num (90 * \<bar>d\<bar>) = Fin x" "0 \<le> x" "x \<le> d441" by blast
  have "rx (Fin q) = Fin x"
    using d(1) x(1) by (simp add: rx_def round_90)
  with d(1) ad x show ?thesis by blast
qed

lemma terminator_of_general:
  "terminator_of (outerArc lr @ [t, ClosePath]) = Some t"
  by (simp add: terminator_of_def outerArc_def)

text \<open>The path at a percent whose roundings are known.\<close>

lemma pathD_eval:
  assumes "percent ps = Fin r" and "round_num (r / 100) = Fin q" and "d001 < q" and "q < d099"
    and "round_num (1 / 2 - q) = Fin d" and "round_num (90 * \<bar>d\<bar>) = Fin x"
  shows "pathD ps = outerArc (litRight ps) @
           [Arc (Fin x) (Fin 45) 0 0 (innerSweep (Fin q) (litRight ps))
              (if litRight ps then (50, 5) else (50, 95)), ClosePath]"
proof -
  have "p_norm ps = Fin q"
    using assms(1,2) by (simp add: p_norm_def)
  from pathD_general [OF this assms(3,4)] assms(5,6) show ?thesis
    by (simp add: terminator_def rx_def round_90)
qed

subsection \<open>Waxing classification\<close>

lemma lower_waxing_crescent: "toLowerCase ''Waxing Crescent'' = ''waxing crescent''"
  by code_simp

lemma lower_first_quarter: "toLowerCase ''First Quarter'' = ''first quarter''"
  by code_simp

lemma lower_waxing_gibbous_upper: "toLowerCase ''WAXING GIBBOUS'' = ''waxing gibbous''"
  by code_simp

lemma lower_waxing_gibbous: "toLowerCase ''Waxing Gibbous'' = ''waxing gibbous''"
  by code_simp

lemma lower_waning_gibbous: "toLowerCase ''Waning Gibbous'' = ''waning gibbous''"
  by code_simp

lemma lower_last_quarter: "toLowerCase ''Last Quarter'' = ''last quarter''"
  by code_simp

lemma lower_full_moon: "toLowerCase ''Full Moon'' = ''full moon''"
  by code_simp

lemma lower_new_moon: "toLowerCase ''New Moon'' = ''new moon''"
  by code_simp

lemma isWaxing_examples:
  "isWaxing (ps\<lparr>phase := ''Waxing Crescent''\<rparr>)"
  "isWaxing (ps\<lparr>phase := ''First Quarter''\<rparr>)"
  "isWaxing (ps\<lparr>phase := ''WAXING GIBBOUS''\<rparr>)"
  "isWaxing (ps\<lparr>phase := ''Waxing Gibbous''\<rparr>)"
  "\<not> isWaxing (ps\<lparr>phase := ''Waning Gibbous''\<rparr>)"
  "\<not> isWaxing (ps\<lparr>phase := ''Last Quarter''\<rparr>)"
  "\<not> isWaxing (ps\<lparr>phase := ''Full Moon''\<rparr>)"
  "\<not> isWaxing (ps\<lparr>phase := ''New Moon''\<rparr>)"
  by (simp_all add: isWaxing_def lower_waxing_crescent lower_first_quarter
      lower_waxing_gibbous_upper lower_waxing_gibbous lower_waning_gibbous
      lower_last_quarter lower_full_moon lower_new_moon)

text \<open>
  C4. The phase is waxing exactly when its lower-cased label contains \<open>waxing\<close> or
  \<open>first\<close> as a substring; every other label is waning. Waxing Crescent, First Quarter
  and WAXING GIBBOUS are waxing; Waning Gibbous, Last Quarter and Full Moon are waning.
\<close>

theorem isWaxing_iff_keyword:
  "(isWaxing ps \<longleftrightarrow>
      (\<exists>pre post. toLowerCase (phase ps) = pre @ ''waxing'' @ post) \<or>
      (\<exists>pre post. toLowerCase (phase ps) = pre @ ''first'' @ post))
   \<and> isWaxing (ps\<lparr>phase := ''Waxing Crescent''\<rparr>)
   \<and> isWaxing (ps\<lparr>phase := ''First Quarter''\<rparr>)
   \<and> isWaxing (ps\<lparr>phase := ''WAXING GIBBOUS''\<rparr>)
   \<and> \<not> isWaxing (ps\<lparr>phase := ''Waning Gibbous''\<rparr>)
   \<and> \<not> isWaxing (ps\<lparr>phase := ''Last Quarter''\<rparr>)
   \<and> \<not> isWaxing (ps\<lparr>phase := ''Full Moon''\<rparr>)"
proof -
  have "isWaxing ps \<longleftrightarrow>
      (\<exists>pre post. toLowerCase (phase ps) = pre @ ''waxing'' @ post) \<or>
      (\<exists>pre post. toLowerCase (phase ps) = pre @ ''first'' @ post)"
    unfolding isWaxing_def Let_def includes_str_iff ..
  then show ?thesis
    using isWaxing_examples [of ps] by blast
qed

subsection \<open>Lit side\<close>

text \<open>
  C5. With hemisphere Northern the lit side is the right one exactly when the phase is
  waxing; with hemisphere Southern it is the opposite of the Northern one, inverted once.
\<close>

theorem litRight_hemisphere:
  "litRight (ps\<lparr>hemisphere := ''Northern''\<rparr>) = isWaxing ps
   \<and> litRight (ps\<lparr>hemisphere := ''Southern''\<rparr>) = (\<not> litRight (ps\<lparr>hemisphere := ''Northern''\<rparr>))
   \<and> litRight (ps\<lparr>hemisphere := ''Southern''\<rparr>) = (\<not> isWaxing ps)"
  by (simp add: litRight_def)

subsection \<open>Degenerate cases\<close>

text \<open>
  C6. Whatever the phase and the hemisphere, the path is the full circle when
  \<open>percent / 100 >= 0.99\<close> and the empty path when \<open>percent / 100 <= 0.01\<close>; percent 0 and 1
  give the empty path, percent 99 and 100 the full circle.
\<close>

theorem pathD_degenerate:
  "(num_ge (p_norm ps) (lit 0.99) \<longrightarrow> pathD ps = FullDisk)
   \<and> (num_le (p_norm ps) (lit 0.01) \<longrightarrow> pathD ps = Empty)
   \<and> pathD (ps\<lparr>percent := Fin 0\<rparr>) = Empty
   \<and> pathD (ps\<lparr>percent := Fin 1\<rparr>) = Empty
   \<and> pathD (ps\<lparr>percent := Fin 99\<rparr>) = FullDisk
   \<and> pathD (ps\<lparr>percent := Fin 100\<rparr>) = FullDisk"
proof -
  have "pathD (ps\<lparr>percent := Fin 0\<rparr>) = Empty"
    by (rule pathD_empty, rule p_norm_lo [where r = 0]) simp_all
  moreover have "pathD (ps\<lparr>percent := Fin 1\<rparr>) = Empty"
    by (rule pathD_empty, rule p_norm_lo [where r = 1]) simp_all
  moreover have "pathD (ps\<lparr>percent := Fin 99\<rparr>) = FullDisk"
    by (rule pathD_full, rule p_norm_hi [where r = 99]) simp_all
  moreover have "pathD (ps\<lparr>percent := Fin 100\<rparr>) = FullDisk"
    by (rule pathD_full, rule p_norm_hi [where r = 100]) simp_all
  ultimately show ?thesis
    by (simp add: pathD_full pathD_empty)
qed

theorem pathD_degenerate_witness:
  "num_ge (p_norm \<lparr>percent = Fin 99.5, phase = ''Full Moon'', hemisphere = ''Northern''\<rparr>) (lit 0.99)
   \<and> pathD \<lparr>percent = Fin 99.5, phase = ''Full Moon'', hemisphere = ''Northern''\<rparr> = FullDisk
   \<and> num_le (p_norm \<lparr>percent = Fin 0.5, phase = ''New Moon'', hemisphere = ''Southern''\<rparr>) (lit 0.01)
   \<and> pathD \<lparr>percent = Fin 0.5, phase = ''New Moon'', hemisphere = ''Southern''\<rparr> = Empty"
proof -
  have h1: "num_ge (p_norm \<lparr>percent = Fin 99.5, phase = ''Full Moon'', hemisphere = ''Northern''\<rparr>) (lit 0.99)"
    by (rule p_norm_hi [where r = "99.5"]) simp_all
  have h2: "num_le (p_norm \<lparr>percent = Fin 0.5, phase = ''New Moon'', hemisphere = ''Southern''\<rparr>) (lit 0.01)"
    by (rule p_norm_lo [where r = "0.5"]) simp_all
  show ?thesis
    using h1 h2
      pathD_degenerate [of "\<lparr>percent = Fin 99.5, phase = ''Full Moon'', hemisphere = ''Northern''\<rparr>"]
      pathD_degenerate [of "\<lparr>percent = Fin 0.5, phase = ''New Moon'', hemisphere = ''Southern''\<rparr>"]
    by blast
qed

subsection \<open>The terminator arc\<close>

lemma terminator_rx_general:
  assumes "p_norm ps = Fin q" and "d001 < q" and "q < d099"
  shows "terminator_rx (pathD ps) = Some (rx (Fin q))"
  using assms
  by (simp add: pathD_general terminator_of_general terminator_rx_def terminator_def)

lemma terminator_sweep_general:
  assumes "p_norm ps = Fin q" and "d001 < q" and "q < d099"
  shows "terminator_sweep (pathD ps) = Some (innerSweep (Fin q) (litRight ps))"
  using assms
  by (simp add: pathD_general terminator_of_general terminator_sweep_def terminator_def)

lemma lower_waning_crescent: "toLowerCase ''Waning Crescent'' = ''waning crescent''"
  by code_simp

lemma litRight_examples:
  "\<not> litRight \<lparr>percent = x, phase = ''Waxing Gibbous'', hemisphere = ''Southern''\<rparr>"
  "litRight \<lparr>percent = x, phase = ''Waxing Gibbous'', hemisphere = ''Northern''\<rparr>"
  "litRight \<lparr>percent = x, phase = ''Waxing Crescent'', hemisphere = ''Northern''\<rparr>"
  "\<not> litRight \<lparr>percent = x, phase = ''Waning Crescent'', hemisphere = ''Northern''\<rparr>"
  "litRight \<lparr>percent = x, phase = ''First Quarter'', hemisphere = ''Northern''\<rparr>"
  "\<not> litRight \<lparr>percent = x, phase = ''Full Moon'', hemisphere = ''Northern''\<rparr>"
  by (simp_all add: litRight_def isWaxing_def lower_waxing_gibbous lower_waxing_crescent
      lower_waning_crescent lower_first_quarter lower_full_moon)

text \<open>Percents 25, 50 and 75: every rounding is exact.\<close>

lemma p_norm_25: "percent ps = Fin 25 \<Longrightarrow> p_norm ps = Fin (1 / 4)"
  by (simp add: p_norm_def round_quarter)

lemma p_norm_50: "percent ps = Fin 50 \<Longrightarrow> p_norm ps = Fin (1 / 2)"
  by (simp add: p_norm_def round_half)

lemma p_norm_75: "percent ps = Fin 75 \<Longrightarrow> p_norm ps = Fin (3 / 4)"
  by (simp add: p_norm_def round_three_quarters)

lemma pathD_25:
  assumes "percent ps = Fin 25"
  shows "pathD ps = outerArc (litRight ps) @
           [Arc (Fin 22.5) (Fin 45) 0 0 (innerSweep (Fin (1 / 4)) (litRight ps))
              (if litRight ps then (50, 5) else (50, 95)), ClosePath]"
  using pathD_eval [OF assms, of "1 / 4" "1 / 4" "45 / 2"]
  by (simp add: round_quarter round_45_2 d001_def d099_def)

lemma pathD_50:
  assumes "percent ps = Fin 50"
  shows "pathD ps = outerArc (litRight ps) @
           [Arc (Fin 0) (Fin 45) 0 0 (innerSweep (Fin (1 / 2)) (litRight ps))
              (if litRight ps then (50, 5) else (50, 95)), ClosePath]"
  using pathD_eval [OF assms, of "1 / 2" 0 0]
  by (simp add: round_half d001_def d099_def)

lemma pathD_75:
  assumes "percent ps = Fin 75"
  shows "pathD ps = outerArc (litRight ps) @
           [Arc (Fin 22.5) (Fin 45) 0 0 (innerSweep (Fin (3 / 4)) (litRight ps))
              (if litRight ps then (50, 5) else (50, 95)), ClosePath]"
  using pathD_eval [OF assms, of "3 / 4" "- (1 / 4)" "45 / 2"]
  by (simp add: round_quarter round_three_quarters round_45_2 d001_def d099_def)

text \<open>
  C3. In the general case, when the right side is lit the sweep flag of the terminator arc
  is 0 below one half (crescent) and 1 above (gibbous); when the left side is lit it is the
  opposite flag. Percent 75, Waxing Gibbous, Southern: the left side is lit, the sweep flag
  is 0 and the horizontal radius is 22.5.
\<close>

theorem terminator_sweep_rule:
  assumes "num_lt (lit 0.01) (p_norm ps)" and "num_lt (p_norm ps) (lit 0.99)"
  shows "(litRight ps \<and> num_lt (p_norm ps) (Fin 0.5) \<longrightarrow> terminator_sweep (pathD ps) = Some 0)
       \<and> (litRight ps \<and> num_gt (p_norm ps) (Fin 0.5) \<longrightarrow> terminator_sweep (pathD ps) = Some 1)
       \<and> (\<not> litRight ps \<and> num_lt (p_norm ps) (Fin 0.5) \<longrightarrow> terminator_sweep (pathD ps) = Some 1)
       \<and> (\<not> litRight ps \<and> num_gt (p_norm ps) (Fin 0.5) \<longrightarrow> terminator_sweep (pathD ps) = Some 0)
       \<and> \<not> litRight \<lparr>percent = Fin 75, phase = ''Waxing Gibbous'', hemisphere = ''Southern''\<rparr>
       \<and> terminator_sweep
           (pathD \<lparr>percent = Fin 75, phase = ''Waxing Gibbous'', hemisphere = ''Southern''\<rparr>) = Some 0
       \<and> terminator_rx
           (pathD \<lparr>percent = Fin 75, phase = ''Waxing Gibbous'', hemisphere = ''Southern''\<rparr>)
           = Some (Fin 22.5)"
proof -
  from general_case_finite [OF assms]
  obtain q where q: "p_norm ps = Fin q" "d001 < q" "q < d099" by blast
  have rule: "(litRight ps \<and> num_lt (p_norm ps) (Fin 0.5) \<longrightarrow> terminator_sweep (pathD ps) = Some 0)
       \<and> (litRight ps \<and> num_gt (p_norm ps) (Fin 0.5) \<longrightarrow> terminator_sweep (pathD ps) = Some 1)
       \<and> (\<not> litRight ps \<and> num_lt (p_norm ps) (Fin 0.5) \<longrightarrow> terminator_sweep (pathD ps) = Some 1)
       \<and> (\<not> litRight ps \<and> num_gt (p_norm ps) (Fin 0.5) \<longrightarrow> terminator_sweep (pathD ps) = Some 0)"
    by (simp add: terminator_sweep_general [OF q] q(1) innerSweep_def num_gt_def)
  let ?ps = "\<lparr>percent = Fin 75, phase = ''Waxing Gibbous'', hemisphere = ''Southern''\<rparr>"
  have lr: "\<not> litRight ?ps"
    by (rule litRight_examples)
  have path: "pathD ?ps = outerArc False @ [Arc (Fin 22.5) (Fin 45) 0 0 0 (50, 95), ClosePath]"
    using pathD_75 [of ?ps] lr by (simp add: innerSweep_def num_gt_def)
  have sw: "terminator_sweep (pathD ?ps) = Some 0"
    unfolding path by (simp add: terminator_of_general terminator_sweep_def)
  have rad: "terminator_rx (pathD ?ps) = Some (Fin 22.5)"
    unfolding path by (simp add: terminator_of_general terminator_rx_def)
  from rule lr sw rad show ?thesis by blast
qed

theorem terminator_sweep_rule_witness:
  "num_lt (lit 0.01) (p_norm \<lparr>percent = Fin 25, phase = ''Waxing Crescent'', hemisphere = ''Northern''\<rparr>)
   \<and> num_lt (p_norm \<lparr>percent = Fin 25, phase = ''Waxing Crescent'', hemisphere = ''Northern''\<rparr>) (lit 0.99)
   \<and> litRight \<lparr>percent = Fin 25, phase = ''Waxing Crescent'', hemisphere = ''Northern''\<rparr>
   \<and> num_lt (p_norm \<lparr>percent = Fin 25, phase = ''Waxing Crescent'', hemisphere = ''Northern''\<rparr>) (Fin 0.5)
   \<and> terminator_sweep
       (pathD \<lparr>percent = Fin 25, phase = ''Waxing Crescent'', hemisphere = ''Northern''\<rparr>) = Some 0
   \<and> litRight \<lparr>percent = Fin 75, phase = ''Waxing Gibbous'', hemisphere = ''Northern''\<rparr>
   \<and> num_gt (p_norm \<lparr>percent = Fin 75, phase = ''Waxing Gibbous'', hemisphere = ''Northern''\<rparr>) (Fin 0.5)
   \<and> terminator_sweep
       (pathD \<lparr>percent = Fin 75, phase = ''Waxing Gibbous'', hemisphere = ''Northern''\<rparr>) = Some 1
   \<and> \<not> litRight \<lparr>percent = Fin 25, phase = ''Waning Crescent'', hemisphere = ''Northern''\<rparr>
   \<and> num_lt (p_norm \<lparr>percent = Fin 25, phase = ''Waning Crescent'', hemisphere = ''Northern''\<rparr>) (Fin 0.5)
   \<and> terminator_sweep
       (pathD \<lparr>percent = Fin 25, phase = ''Waning Crescent'', hemisphere = ''Northern''\<rparr>) = Some 1
   \<and> \<not> litRight \<lparr>percent = Fin 75, phase = ''Waxing Gibbous'', hemisphere = ''Southern''\<rparr>
   \<and> num_gt (p_norm \<lparr>percent = Fin 75, phase = ''Waxing Gibbous'', hemisphere = ''Southern''\<rparr>) (Fin 0.5)
   \<and> terminator_sweep
       (pathD \<lparr>percent = Fin 75, phase = ''Waxing Gibbous'', hemisphere = ''Southern''\<rparr>) = Some 0"
proof -
  let ?a = "\<lparr>percent = Fin 25, phase = ''Waxing Crescent'', hemisphere = ''Northern''\<rparr>"
  let ?b = "\<lparr>percent = Fin 75, phase = ''Waxing Gibbous'', hemisphere = ''Northern''\<rparr>"
  let ?c = "\<lparr>percent = Fin 25, phase = ''Waning Crescent'', hemisphere = ''Northern''\<rparr>"
  let ?d = "\<lparr>percent = Fin 75, phase = ''Waxing Gibbous'', hemisphere = ''Southern''\<rparr>"
  have a: "num_lt (lit 0.01) (p_norm ?a)" "num_lt (p_norm ?a) (lit 0.99)"
      "litRight ?a" "num_lt (p_norm ?a) (Fin 0.5)"
    by (simp_all add: p_norm_25 lit_norm litRight_examples d001_def d099_def)
  have b: "num_lt (lit 0.01) (p_norm ?b)" "num_lt (p_norm ?b) (lit 0.99)"
      "litRight ?b" "num_gt (p_norm ?b) (Fin 0.5)"
    by (simp_all add: p_norm_75 lit_norm num_gt_def litRight_examples d001_def d099_def)
  have c: "num_lt (lit 0.01) (p_norm ?c)" "num_lt (p_norm ?c) (lit 0.99)"
      "\<not> litRight ?c" "num_lt (p_norm ?c) (Fin 0.5)"
    by (simp_all add: p_norm_25 lit_norm litRight_examples d001_def d099_def)
  have d: "num_lt (lit 0.01) (p_norm ?d)" "num_lt (p_norm ?d) (lit 0.99)"
      "\<not> litRight ?d" "num_gt (p_norm ?d) (Fin 0.5)"
    by (simp_all add: p_norm_75 lit_norm num_gt_def litRight_examples d001_def d099_def)
  show ?thesis
    using a b c d
      terminator_sweep_rule [OF a(1,2)] terminator_sweep_rule [OF b(1,2)]
      terminator_sweep_rule [OF c(1,2)] terminator_sweep_rule [OF d(1,2)]
    by blast
qed

subsection \<open>The outer arc\<close>

text \<open>
  C7. In the general case the outer arc is a half circle of radius 45 on the lit side: it
  starts and ends at the topmost point \<open>(50, 5)\<close> and the bottommost point \<open>(50, 95)\<close> of
  the disk, runs from top to bottom through the rightmost point when the right side is lit,
  and from bottom to top through the leftmost point otherwise.
\<close>

theorem outer_arc_half_circle:
  assumes "num_lt (lit 0.01) (p_norm ps)" and "num_lt (p_norm ps) (lit 0.99)"
  shows "(\<exists>t. pathD ps =
            [MoveTo (if litRight ps then north else south),
             Arc (Fin disk_radius) (Fin disk_radius) 0 0 1 (if litRight ps then south else north),
             t, ClosePath])
       \<and> disk_radius = 45 \<and> north = (50, 5) \<and> south = (50, 95)
       \<and> half_arc_mid north 1 south = (fst disk_centre + disk_radius, snd disk_centre)
       \<and> half_arc_mid south 1 north = (fst disk_centre - disk_radius, snd disk_centre)"
proof -
  from general_case_finite [OF assms]
  obtain q where q: "p_norm ps = Fin q" "d001 < q" "q < d099" by blast
  have ns: "north = (50, 5)" "south = (50, 95)"
    by (simp_all add: north_def south_def disk_centre_def disk_radius_def)
  have "pathD ps =
      [MoveTo (if litRight ps then north else south),
       Arc (Fin disk_radius) (Fin disk_radius) 0 0 1 (if litRight ps then south else north),
       terminator (Fin q) (litRight ps), ClosePath]"
    by (simp add: pathD_general [OF q] outerArc_def ns disk_radius_def)
  moreover have "half_arc_mid north 1 south = (fst disk_centre + disk_radius, snd disk_centre)"
      "half_arc_mid south 1 north = (fst disk_centre - disk_radius, snd disk_centre)"
    by (simp_all add: half_arc_mid_def ns disk_centre_def disk_radius_def)
  ultimately show ?thesis
    using ns by (simp add: disk_radius_def)
qed

theorem outer_arc_half_circle_witness:
  "num_lt (lit 0.01) (p_norm \<lparr>percent = Fin 25, phase = ''Waxing Crescent'', hemisphere = ''Northern''\<rparr>)
   \<and> num_lt (p_norm \<lparr>percent = Fin 25, phase = ''Waxing Crescent'', hemisphere = ''Northern''\<rparr>) (lit 0.99)
   \<and> (\<exists>t. pathD \<lparr>percent = Fin 25, phase = ''Waxing Crescent'', hemisphere = ''Northern''\<rparr> =
         [MoveTo (50, 5), Arc (Fin 45) (Fin 45) 0 0 1 (50, 95), t, ClosePath])
   \<and> num_lt (lit 0.01) (p_norm \<lparr>percent = Fin 25, phase = ''Waning Crescent'', hemisphere = ''Northern''\<rparr>)
   \<and> num_lt (p_norm \<lparr>percent = Fin 25, phase = ''Waning Crescent'', hemisphere = ''Northern''\<rparr>) (lit 0.99)
   \<and> (\<exists>t. pathD \<lparr>percent = Fin 25, phase = ''Waning Crescent'', hemisphere = ''Northern''\<rparr> =
         [MoveTo (50, 95), Arc (Fin 45) (Fin 45) 0 0 1 (50, 5), t, ClosePath])"
proof -
  let ?a = "\<lparr>percent = Fin 25, phase = ''Waxing Crescent'', hemisphere = ''Northern''\<rparr>"
  let ?c = "\<lparr>percent = Fin 25, phase = ''Waning Crescent'', hemisphere = ''Northern''\<rparr>"
  have a: "num_lt (lit 0.01) (p_norm ?a)" "num_lt (p_norm ?a) (lit 0.99)"
    by (simp_all add: p_norm_25 lit_norm d001_def d099_def)
  have c: "num_lt (lit 0.01) (p_norm ?c)" "num_lt (p_norm ?c) (lit 0.99)"
    by (simp_all add: p_norm_25 lit_norm d001_def d099_def)
  have la: "litRight ?a" and lc: "\<not> litRight ?c"
    by (rule litRight_examples)+
  from outer_arc_half_circle [OF a] la
  have "\<exists>t. pathD ?a = [MoveTo (50, 5), Arc (Fin 45) (Fin 45) 0 0 1 (50, 95), t, ClosePath]"
    by simp
  moreover from outer_arc_half_circle [OF c] lc
  have "\<exists>t. pathD ?c = [MoveTo (50, 95), Arc (Fin 45) (Fin 45) 0 0 1 (50, 5), t, ClosePath]"
    by simp
  ultimately show ?thesis
    using a c by blast
qed

subsection \<open>Hemisphere values\<close>

lemma hemisphere_not_southern:
  assumes "hemisphere ps \<noteq> ''Southern''"
  shows "pathD ps = pathD (ps\<lparr>hemisphere := ''Northern''\<rparr>)"
    and "litRight ps = isWaxing ps"
  using assms by (simp_all add: pathD_def litRight_def p_norm_def Let_def)

text \<open>
  C8. Every hemisphere other than the string \<open>Southern\<close>, a value such as \<open>southern\<close> or
  the empty string and an absent hemisphere among them, gives the path of hemisphere
  \<open>Northern\<close>: the lit side is not inverted.
\<close>

theorem hemisphere_default_northern:
  assumes "hemisphere_attr a \<noteq> Some ''Southern''"
  shows "pathD (defineProps a) = pathD (defineProps (a\<lparr>hemisphere_attr := Some ''Northern''\<rparr>))
       \<and> litRight (defineProps a) = isWaxing (defineProps a)
       \<and> hemisphere (defineProps (a\<lparr>hemisphere_attr := None\<rparr>)) = ''Northern''"
proof -
  have h: "hemisphere (defineProps a) \<noteq> ''Southern''"
    using assms by (cases "hemisphere_attr a") (simp_all add: defineProps_def)
  have "(defineProps a)\<lparr>hemisphere := ''Northern''\<rparr>
      = defineProps (a\<lparr>hemisphere_attr := Some ''Northern''\<rparr>)"
    by (simp add: defineProps_def)
  with hemisphere_not_southern [OF h] show ?thesis
    by (simp add: defineProps_def)
qed

theorem hemisphere_default_northern_witness:
  "hemisphere_attr \<lparr>percent_attr = Some (Fin 25), phase_attr = Some ''Waxing Crescent'',
       hemisphere_attr = Some ''southern''\<rparr> \<noteq> Some ''Southern''
   \<and> pathD (defineProps \<lparr>percent_attr = Some (Fin 25), phase_attr = Some ''Waxing Crescent'',
       hemisphere_attr = Some ''southern''\<rparr>)
     = pathD (defineProps \<lparr>percent_attr = Some (Fin 25), phase_attr = Some ''Waxing Crescent'',
       hemisphere_attr = Some ''Northern''\<rparr>)
   \<and> hemisphere_attr \<lparr>percent_attr = Some (Fin 25), phase_attr = Some ''Waxing Crescent'',
       hemisphere_attr = None\<rparr> \<noteq> Some ''Southern''
   \<and> pathD (defineProps \<lparr>percent_attr = Some (Fin 25), phase_attr = Some ''Waxing Crescent'',
       hemisphere_attr = None\<rparr>)
     = pathD (defineProps \<lparr>percent_attr = Some (Fin 25), phase_attr = Some ''Waxing Crescent'',
       hemisphere_attr = Some ''Northern''\<rparr>)
   \<and> hemisphere_attr \<lparr>percent_attr = Some (Fin 25), phase_attr = Some ''Waxing Crescent'',
       hemisphere_attr = Some ''''\<rparr> \<noteq> Some ''Southern''
   \<and> pathD (defineProps \<lparr>percent_attr = Some (Fin 25), phase_attr = Some ''Waxing Crescent'',
       hemisphere_attr = Some ''''\<rparr>)
     = pathD (defineProps \<lparr>percent_attr = Some (Fin 25), phase_attr = Some ''Waxing Crescent'',
       hemisphere_attr = Some ''Northern''\<rparr>)"
proof -
  let ?a = "\<lparr>percent_attr = Some (Fin 25), phase_attr = Some ''Waxing Crescent'',
       hemisphere_attr = Some ''southern''\<rparr>"
  let ?b = "\<lparr>percent_attr = Some (Fin 25), phase_attr = Some ''Waxing Crescent'',
       hemisphere_attr = None\<rparr>"
  let ?c = "\<lparr>percent_attr = Some (Fin 25), phase_attr = Some ''Waxing Crescent'',
       hemisphere_attr = Some ''''\<rparr>"
  have a: "hemisphere_attr ?a \<noteq> Some ''Southern''" by simp
  have b: "hemisphere_attr ?b \<noteq> Some ''Southern''" by simp
  have c: "hemisphere_attr ?c \<noteq> Some ''Southern''" by simp
  show ?thesis
    using a b c hemisphere_default_northern [OF a] hemisphere_default_northern [OF b]
      hemisphere_default_northern [OF c]
    by simp
qed

subsection \<open>Percents out of range\<close>

lemma pathD_above:
  assumes "percent ps = Fin r" and "99 \<le> r"
  shows "pathD ps = FullDisk"
  using assms by (intro pathD_full p_norm_hi)

lemma pathD_below:
  assumes "percent ps = Fin r" and "r \<le> 1"
  shows "pathD ps = Empty"
  using assms by (intro pathD_empty p_norm_lo)

lemma pathD_infinite:
  "percent ps = PosInf \<Longrightarrow> pathD ps = FullDisk"
  "percent ps = NegInf \<Longrightarrow> pathD ps = Empty"
  by (simp_all add: pathD_def p_norm_def num_ge_def lit_norm)

lemma pathD_clamp:
  assumes "percent ps \<noteq> NaN"
  shows "pathD (ps\<lparr>percent := spec_clamp (percent ps)\<rparr>) = pathD ps"
proof (cases "percent ps")
  case (Fin r)
  consider "r < 0" | "100 < r" | "0 \<le> r" "r \<le> 100"
    by linarith
  then show ?thesis
  proof cases
    case 1
    then have "pathD ps = Empty"
      using Fin by (intro pathD_below [where r = r]) simp_all
    moreover have "pathD (ps\<lparr>percent := Fin 0\<rparr>) = Empty"
      by (rule pathD_below [where r = 0]) simp_all
    ultimately show ?thesis using 1 Fin by (simp add: max_def min_def)
  next
    case 2
    then have "pathD ps = FullDisk"
      using Fin by (intro pathD_above [where r = r]) simp_all
    moreover have "pathD (ps\<lparr>percent := Fin 100\<rparr>) = FullDisk"
      by (rule pathD_above [where r = 100]) simp_all
    ultimately show ?thesis using 2 Fin by (simp add: max_def min_def)
  next
    case 3
    have eq: "ps\<lparr>percent := Fin r\<rparr> = ps"
      using Fin by simp
    have "spec_clamp (percent ps) = Fin r"
      using 3 Fin by (simp add: max_def min_def)
    then show ?thesis by (simp only: eq)
  qed
next
  case PosInf
  moreover have "pathD (ps\<lparr>percent := Fin 100\<rparr>) = FullDisk"
    by (rule pathD_above [where r = 100]) simp_all
  ultimately show ?thesis
    by (simp add: pathD_infinite)
next
  case NegInf
  moreover have "pathD (ps\<lparr>percent := Fin 0\<rparr>) = Empty"
    by (rule pathD_below [where r = 0]) simp_all
  ultimately show ?thesis
    by (simp add: pathD_infinite)
next
  case NaN
  with assms show ?thesis by simp
qed

text \<open>
  C9. For a finite percent the path is the path of the percent clamped to \<open>[0, 100]\<close>:
  every percent above 99 gives the full circle and every percent below 1 the empty path,
  so that no finite percent outside the range reaches the construction of the arcs.
\<close>

theorem pathD_finite_clamped:
  "pathD (ps\<lparr>percent := Fin r\<rparr>) = pathD (ps\<lparr>percent := spec_clamp (Fin r)\<rparr>)
   \<and> spec_clamp (Fin r) = Fin (max 0 (min 100 r))
   \<and> (99 < r \<longrightarrow> pathD (ps\<lparr>percent := Fin r\<rparr>) = FullDisk)
   \<and> (r < 1 \<longrightarrow> pathD (ps\<lparr>percent := Fin r\<rparr>) = Empty)
   \<and> (r < 0 \<or> 100 < r \<longrightarrow> terminator_of (pathD (ps\<lparr>percent := Fin r\<rparr>)) = None)"
proof -
  have c: "pathD (ps\<lparr>percent := Fin r\<rparr>) = pathD (ps\<lparr>percent := spec_clamp (Fin r)\<rparr>)"
    using pathD_clamp [of "ps\<lparr>percent := Fin r\<rparr>"] by simp
  have f: "pathD (ps\<lparr>percent := Fin r\<rparr>) = FullDisk" if "99 < r"
    using that by (intro pathD_above [where r = r]) simp_all
  have e: "pathD (ps\<lparr>percent := Fin r\<rparr>) = Empty" if "r < 1"
    using that by (intro pathD_below [where r = r]) simp_all
  have "terminator_of FullDisk = None" "terminator_of Empty = None"
    by (simp_all add: terminator_of_def FullDisk_def Empty_def)
  with c f e show ?thesis
    by auto
qed

theorem pathD_finite_clamped_witness:
  "(99::real) < 250
   \<and> pathD \<lparr>percent = Fin 250, phase = ''Waxing Gibbous'', hemisphere = ''Northern''\<rparr> = FullDisk
   \<and> pathD \<lparr>percent = Fin 250, phase = ''Waxing Gibbous'', hemisphere = ''Northern''\<rparr>
       = pathD \<lparr>percent = Fin 100, phase = ''Waxing Gibbous'', hemisphere = ''Northern''\<rparr>
   \<and> (- 3::real) < 1
   \<and> pathD \<lparr>percent = Fin (- 3), phase = ''Waxing Gibbous'', hemisphere = ''Northern''\<rparr> = Empty
   \<and> pathD \<lparr>percent = Fin (- 3), phase = ''Waxing Gibbous'', hemisphere = ''Northern''\<rparr>
       = pathD \<lparr>percent = Fin 0, phase = ''Waxing Gibbous'', hemisphere = ''Northern''\<rparr>"
proof -
  let ?ps = "\<lparr>percent = Fin 0, phase = ''Waxing Gibbous'', hemisphere = ''Northern''\<rparr>"
  note hi = pathD_finite_clamped [where ps = ?ps and r = 250]
  note lo = pathD_finite_clamped [where ps = ?ps and r = "- 3"]
  have hi1: "pathD \<lparr>percent = Fin 250, phase = ''Waxing Gibbous'', hemisphere = ''Northern''\<rparr> = FullDisk"
    and hi2: "pathD \<lparr>percent = Fin 250, phase = ''Waxing Gibbous'', hemisphere = ''Northern''\<rparr>
       = pathD \<lparr>percent = Fin 100, phase = ''Waxing Gibbous'', hemisphere = ''Northern''\<rparr>"
    using hi by auto
  have lo1: "pathD \<lparr>percent = Fin (- 3), phase = ''Waxing Gibbous'', hemisphere = ''Northern''\<rparr> = Empty"
    and lo2: "pathD \<lparr>percent = Fin (- 3), phase = ''Waxing Gibbous'', hemisphere = ''Northern''\<rparr>
       = pathD \<lparr>percent = Fin 0, phase = ''Waxing Gibbous'', hemisphere = ''Northern''\<rparr>"
    using lo by auto
  have "(99::real) < 250" "(- 3::real) < 1"
    by simp_all
  with hi1 hi2 lo1 lo2 show ?thesis
    by blast
qed

subsection \<open>Paths that do not intersect themselves\<close>

text \<open>Halfway along a circular arc, \<open>arc_point\<close> is \<open>half_arc_mid\<close>.\<close>

lemma arc_point_mid:
  assumes "axis_arc s b e"
  shows "arc_point s b b sweep e (pi / 2) = half_arc_mid s sweep e"
  using assms by (simp add: axis_arc_def arc_point_def half_arc_mid_def Let_def)

lemma sin_eq_of_cos_neg:
  assumes "0 < t1" "t1 < pi" "0 < t2" "t2 < pi" and "cos t1 = - cos t2"
  shows "sin t1 = sin t2"
proof -
  have "(sin t1)\<^sup>2 = (sin t2)\<^sup>2"
    using assms(5) by (simp add: sin_squared_eq)
  moreover have "0 < sin t1" "0 < sin t2"
    using assms(1-4) by (simp_all add: sin_gt_zero)
  ultimately show ?thesis
    by (simp add: power2_eq_iff_nonneg)
qed

text \<open>
  The outer half circle and an arc back along the same axis with horizontal radius \<open>c\<close>
  have no point in common between their end points, when \<open>c\<close> is below 45 or the second arc
  is on the other side.
\<close>

lemma arcs_apart:
  assumes t: "0 < t1" "t1 < pi" "0 < t2" "t2 < pi"
    and c: "0 \<le> c" "c < 45 \<or> w = 1"
    and se: "(s = (50, 5) \<and> e = (50, 95)) \<or> (s = (50, 95) \<and> e = (50, 5))"
  shows "arc_point s 45 45 1 e t1 \<noteq> arc_point e c 45 w s t2"
proof
  assume eq: "arc_point s 45 45 1 e t1 = arc_point e c 45 w s t2"
  have pos: "0 < sin t1" "0 < sin t2"
    using t by (simp_all add: sin_gt_zero)
  from se eq have "cos t1 = - cos t2"
    by (auto simp: arc_point_def Let_def split: if_splits)
  from sin_eq_of_cos_neg [OF t this] have s: "sin t1 = sin t2" .
  from se eq s have "(w = 1 \<and> 45 * sin t2 = - (c * sin t2)) \<or> (w \<noteq> 1 \<and> 45 * sin t2 = c * sin t2)"
    by (auto simp: arc_point_def Let_def split: if_splits)
  then have "(w = 1 \<and> (45 + c) * sin t2 = 0) \<or> (w \<noteq> 1 \<and> (45 - c) * sin t2 = 0)"
    by (auto simp: algebra_simps)
  with pos(2) c show False
    by auto
qed

lemma axis_north_south:
  "axis_arc (50, 5) 45 (50, 95)" "axis_arc (50, 95) 45 (50, 5)"
  by (simp_all add: axis_arc_def)

lemma simple_path_Empty: "simple_path Empty"
  by (simp add: simple_path_def Empty_def)

lemma simple_path_FullDisk: "simple_path FullDisk"
  unfolding simple_path_def FullDisk_def
  using arcs_apart [where s = "(50, 5)" and e = "(50, 95)" and c = 45 and w = 1]
  by (auto simp: axis_north_south)

lemma simple_path_lune:
  assumes "0 \<le> x" and "x < 45"
  shows "simple_path (outerArc lr @
           [Arc (Fin x) (Fin 45) 0 0 sw (if lr then (50, 5) else (50, 95)), ClosePath])"
proof (cases lr)
  case True
  show ?thesis
    unfolding simple_path_def
    using True assms arcs_apart [where s = "(50, 5)" and e = "(50, 95)" and c = x and w = sw]
    by (auto simp: outerArc_def axis_north_south)
next
  case False
  show ?thesis
    unfolding simple_path_def
    using False assms arcs_apart [where s = "(50, 95)" and e = "(50, 5)" and c = x and w = sw]
    by (auto simp: outerArc_def axis_north_south)
qed

lemma nan_free_degenerate: "nan_free FullDisk" "nan_free Empty"
  by (simp_all add: nan_free_def FullDisk_def Empty_def)

lemma nan_free_lune:
  "nan_free (outerArc lr @ [Arc (Fin x) (Fin 45) 0 0 sw e, ClosePath])"
  by (simp add: nan_free_def outerArc_def)

text \<open>The lune of the general case.\<close>

lemma pathD_lune:
  assumes "p_norm ps = Fin q" and "d001 < q" and "q < d099"
  shows "\<exists>x. 0 \<le> x \<and> x \<le> d441 \<and> rx (Fin q) = Fin x
           \<and> pathD ps = outerArc (litRight ps) @
               [Arc (Fin x) (Fin 45) 0 0 (innerSweep (Fin q) (litRight ps))
                  (if litRight ps then (50, 5) else (50, 95)), ClosePath]"
proof -
  from rx_general [OF assms(2,3)]
  obtain x where x: "rx (Fin q) = Fin x" "0 \<le> x" "x \<le> d441" by blast
  with pathD_general [OF assms] show ?thesis
    by (simp add: terminator_def)
qed

text \<open>Whatever the percent, NaN apart, the path is the full circle, empty, or such a lune.\<close>

lemma pathD_cases:
  assumes "percent ps \<noteq> NaN"
  shows "pathD ps = FullDisk \<or> pathD ps = Empty
       \<or> (\<exists>q. p_norm ps = Fin q \<and> d001 < q \<and> q < d099)"
proof -
  have n: "p_norm ps \<noteq> NaN"
    using assms by (cases "percent ps") (simp_all add: p_norm_def)
  show ?thesis
  proof (cases "num_ge (p_norm ps) (lit 0.99)")
    case True
    then show ?thesis by (simp add: pathD_full)
  next
    case hi: False
    show ?thesis
    proof (cases "num_le (p_norm ps) (lit 0.01)")
      case True
      then show ?thesis by (simp add: pathD_empty)
    next
      case False
      have "num_lt (lit 0.01) (p_norm ps)"
        using n False by (intro num_lt_total) (simp_all add: lit_def)
      moreover have "num_lt (p_norm ps) (lit 0.99)"
        using n hi by (intro num_lt_total) (simp_all add: lit_def num_ge_def)
      ultimately show ?thesis
        using general_case_finite [of ps] by blast
    qed
  qed
qed

lemma pathD_simple:
  assumes "percent ps \<noteq> NaN"
  shows "nan_free (pathD ps)" and "simple_path (pathD ps)"
proof -
  from pathD_cases [OF assms]
  consider "pathD ps = FullDisk" | "pathD ps = Empty"
    | q where "p_norm ps = Fin q" "d001 < q" "q < d099"
    by blast
  then have "nan_free (pathD ps) \<and> simple_path (pathD ps)"
  proof cases
    case 1
    then show ?thesis by (simp add: nan_free_degenerate simple_path_FullDisk)
  next
    case 2
    then show ?thesis by (simp add: nan_free_degenerate simple_path_Empty)
  next
    case 3
    from pathD_lune [OF 3]
    obtain x where x: "0 \<le> x" "x \<le> d441"
      and path: "pathD ps = outerArc (litRight ps) @
               [Arc (Fin x) (Fin 45) 0 0 (innerSweep (Fin q) (litRight ps))
                  (if litRight ps then (50, 5) else (50, 95)), ClosePath]"
      by blast
    have "x < 45" using x(2) d_bounds(8) by simp
    with x(1) show ?thesis
      unfolding path by (simp add: nan_free_lune simple_path_lune)
  qed
  then show "nan_free (pathD ps)" and "simple_path (pathD ps)" by simp_all
qed

lemma simple_path_excludes:
  "\<not> simple_path (outerArc True @ [Arc (Fin 45) (Fin 45) 0 0 0 (50, 5), ClosePath])"
  "\<not> simple_path (outerArc True @ [Arc (Fin 20) (Fin 45) 0 0 0 (95, 50), ClosePath])"
  "\<not> simple_path (outerArc True @ [Arc NaN (Fin 45) 0 0 0 (50, 5), ClosePath])"
proof -
  show "\<not> simple_path (outerArc True @ [Arc (Fin 45) (Fin 45) 0 0 0 (50, 5), ClosePath])"
  proof
    assume "simple_path (outerArc True @ [Arc (Fin 45) (Fin 45) 0 0 0 (50, 5), ClosePath])"
    then have "\<forall>t1 t2. 0 < t1 \<and> t1 < pi \<and> 0 < t2 \<and> t2 < pi
        \<longrightarrow> arc_point (50, 5) 45 45 1 (50, 95) t1 \<noteq> arc_point (50, 95) 45 45 0 (50, 5) t2"
      by (simp add: simple_path_def outerArc_def)
    moreover have "0 < pi / 2" "pi / 2 < pi" by simp_all
    ultimately have "arc_point (50, 5) 45 45 1 (50, 95) (pi / 2)
        \<noteq> arc_point (50, 95) 45 45 0 (50, 5) (pi / 2)"
      by blast
    then show False by (simp add: arc_point_def)
  qed
  show "\<not> simple_path (outerArc True @ [Arc (Fin 20) (Fin 45) 0 0 0 (95, 50), ClosePath])"
    by (simp add: simple_path_def outerArc_def)
  show "\<not> simple_path (outerArc True @ [Arc NaN (Fin 45) 0 0 0 (50, 5), ClosePath])"
    by (simp add: simple_path_def outerArc_def)
qed

subsection \<open>The radius of the terminator\<close>

text \<open>Percent 33: the three roundings.\<close>

lemma round_33:
  "round_num (33 / 100) = Fin (5944751508129055 / 2 ^ 54)"
  "round_num (1 / 2 - 5944751508129055 / 2 ^ 54) = Fin (3062447746611937 / 2 ^ 54)"
  "round_num (90 * (3062447746611937 / 2 ^ 54)) = Fin (8613134287346073 / 2 ^ 49)"
  using round_num_eval [of 54 "33 / 100"]
    round_num_eval [of 55 "1 / 2 - 5944751508129055 / 2 ^ 54"]
    round_num_eval [of 49 "90 * (3062447746611937 / 2 ^ 54)"]
  by (simp_all add: rne_def)

lemma pathD_33:
  assumes "percent ps = Fin 33"
  shows "pathD ps = outerArc (litRight ps) @
           [Arc (Fin (8613134287346073 / 2 ^ 49)) (Fin 45) 0 0
              (innerSweep (Fin (5944751508129055 / 2 ^ 54)) (litRight ps))
              (if litRight ps then (50, 5) else (50, 95)), ClosePath]"
  using pathD_eval [OF assms, of "5944751508129055 / 2 ^ 54" "3062447746611937 / 2 ^ 54"
      "8613134287346073 / 2 ^ 49"] round_33
  by (simp add: d001_def d099_def)

text \<open>Percent \<open>1 + 2 ^ - 52\<close>, the double next above 1: the three roundings.\<close>

lemma round_next_1:
  "round_num ((1 + 1 / 2 ^ 52) / 100) = Fin (5764607523034236 / 2 ^ 59)"
  "round_num (1 / 2 - 5764607523034236 / 2 ^ 59) = Fin d049"
  "round_num (90 * d049) = Fin d441"
  using round_num_eval [of 59 "(1 + 1 / 2 ^ 52) / 100"]
    round_num_eval [of 54 "1 / 2 - 5764607523034236 / 2 ^ 59"]
    round_num_eval [of 47 "90 * d049"]
  by (simp_all add: rne_def d049_def d441_def)

lemma pathD_next_1:
  assumes "percent ps = Fin (1 + 1 / 2 ^ 52)"
  shows "pathD ps = outerArc (litRight ps) @
           [Arc (Fin d441) (Fin 45) 0 0
              (innerSweep (Fin (5764607523034236 / 2 ^ 59)) (litRight ps))
              (if litRight ps then (50, 5) else (50, 95)), ClosePath]"
proof -
  have "\<bar>d049\<bar> = d049" using d_bounds(6) by simp
  with pathD_eval [OF assms, of "5764607523034236 / 2 ^ 59" d049 d441] round_next_1
  show ?thesis
    by (simp add: d001_def d099_def)
qed

lemma doubles_33_next_1:
  "round_num 33 = Fin 33" "round_num (1 + 1 / 2 ^ 52) = Fin (1 + 1 / 2 ^ 52)"
  using round_num_eval [of 47 33] round_num_eval [of 52 "1 + 1 / 2 ^ 52"]
  by (simp_all add: rne_def)

text \<open>The path at percent NaN.\<close>

lemma pathD_NaN:
  assumes "percent ps = NaN"
  shows "pathD ps = outerArc (litRight ps) @
           [Arc NaN (Fin 45) 0 0 (if litRight ps then 0 else 1)
              (if litRight ps then (50, 5) else (50, 95)), ClosePath]"
  using assms
  by (simp add: pathD_def p_norm_def num_ge_def num_gt_def lit_norm terminator_def rx_def
      round_90 innerSweep_def)

text \<open>The distance of the computed radius from the exact one.\<close>

lemma rx_error:
  assumes "1 < r" and "r < 99" and "round_num (r / 100) = Fin q" and "d001 < q" and "q < d099"
    and "round_num (1 / 2 - q) = Fin d" and "\<bar>d\<bar> \<le> d049" and "round_num (90 * \<bar>d\<bar>) = Fin x"
  shows "\<bar>x - 90 * \<bar>1 / 2 - r / 100\<bar>\<bar> \<le> 1 / 2 ^ 46"
proof -
  have "\<bar>r / 100\<bar> * 2 ^ 53 < 2 ^ 53"
    using assms(1,2) by simp
  from round_num_err [OF _ this] assms(3)
  have e1: "\<bar>q - r / 100\<bar> \<le> 1 / 2 / 2 ^ 53" by auto
  have "\<bar>1 / 2 - q\<bar> < 1 / 2"
    using assms(4,5) d_bounds(1,3) by (simp add: abs_if)
  then have "\<bar>1 / 2 - q\<bar> * 2 ^ 54 < 2 ^ 53" by simp
  from round_num_err [OF _ this] assms(6)
  have e2: "\<bar>d - (1 / 2 - q)\<bar> \<le> 1 / 2 / 2 ^ 54" by auto
  have "90 * \<bar>d\<bar> < 64"
    using assms(7) d_bounds(7) by simp
  then have "\<bar>90 * \<bar>d\<bar>\<bar> * 2 ^ 47 < 2 ^ 53" by simp
  from round_num_err [OF _ this] assms(8)
  have e3: "\<bar>x - 90 * \<bar>d\<bar>\<bar> \<le> 1 / 2 / 2 ^ 47" by auto
  define A where "A = \<bar>d\<bar>"
  define B where "B = \<bar>1 / 2 - r / 100\<bar>"
  define E where "E = \<bar>d - (1 / 2 - q)\<bar> + \<bar>q - r / 100\<bar>"
  have "\<bar>A - B\<bar> \<le> \<bar>d - (1 / 2 - r / 100)\<bar>"
    unfolding A_def B_def by (rule abs_triangle_ineq3)
  also have "\<dots> \<le> E"
    unfolding E_def by linarith
  finally have "\<bar>x - 90 * B\<bar> \<le> \<bar>x - 90 * A\<bar> + 90 * E"
    by linarith
  then have "\<bar>x - 90 * \<bar>1 / 2 - r / 100\<bar>\<bar>
      \<le> \<bar>x - 90 * \<bar>d\<bar>\<bar> + 90 * (\<bar>d - (1 / 2 - q)\<bar> + \<bar>q - r / 100\<bar>)"
    by (simp add: A_def B_def E_def)
  also have "\<dots> \<le> 1 / 2 / 2 ^ 47 + 90 * (1 / 2 / 2 ^ 54 + 1 / 2 / 2 ^ 53)"
    by (intro add_mono mult_left_mono e1 e2 e3) simp
  also have "\<dots> \<le> 1 / 2 ^ 46" by simp
  finally show ?thesis .
qed




text \<open>
  C10, as the component has it. An input whose percent is not NaN gives a lune exactly when
  \<open>0.01 < percent / 100 < 0.99\<close>, compared as doubles. For every such input the horizontal
  radius \<open>rx\<close> of the terminator arc is a finite number with \<open>0 <= rx <= 44.1\<close> as the
  component compares numbers, that is, \<open>rx\<close> is at most the double of \<open>44.1\<close>. It is below
  the radius 45 of the disk, which is also the vertical radius of the terminator arc, and
  the two arcs of the lune meet at their end points only.
\<close>

theorem terminator_rx_bounds:
  "((terminator_of (pathD ps) \<noteq> None \<and> percent ps \<noteq> NaN)
      \<longleftrightarrow> (num_lt (lit 0.01) (p_norm ps) \<and> num_lt (p_norm ps) (lit 0.99)))
   \<and> (num_lt (lit 0.01) (p_norm ps) \<and> num_lt (p_norm ps) (lit 0.99) \<longrightarrow>
        (\<exists>x sw e. terminator_of (pathD ps) = Some (Arc (Fin x) (Fin 45) 0 0 sw e)
           \<and> terminator_rx (pathD ps) = Some (Fin x)
           \<and> 0 \<le> x \<and> num_le (Fin x) (lit 44.1) \<and> x \<le> d441 \<and> x < disk_radius
           \<and> simple_path (pathD ps)))"
proof -
  have gen: "\<exists>x sw e. terminator_of (pathD ps) = Some (Arc (Fin x) (Fin 45) 0 0 sw e)
           \<and> terminator_rx (pathD ps) = Some (Fin x)
           \<and> 0 \<le> x \<and> num_le (Fin x) (lit 44.1) \<and> x \<le> d441 \<and> x < disk_radius
           \<and> simple_path (pathD ps)"
    and nn: "percent ps \<noteq> NaN"
    if h: "num_lt (lit 0.01) (p_norm ps)" "num_lt (p_norm ps) (lit 0.99)"
  proof -
    from general_case_finite [OF h]
    obtain r q where r: "percent ps = Fin r"
      and q: "p_norm ps = Fin q" "d001 < q" "q < d099"
      by blast
    show nn: "percent ps \<noteq> NaN" using r by simp
    from pathD_lune [OF q]
    obtain x where x: "0 \<le> x" "x \<le> d441"
      and path: "pathD ps = outerArc (litRight ps) @
               [Arc (Fin x) (Fin 45) 0 0 (innerSweep (Fin q) (litRight ps))
                  (if litRight ps then (50, 5) else (50, 95)), ClosePath]"
      by blast
    have "terminator_of (pathD ps) =
        Some (Arc (Fin x) (Fin 45) 0 0 (innerSweep (Fin q) (litRight ps))
          (if litRight ps then (50, 5) else (50, 95)))"
      unfolding path by (rule terminator_of_general)
    moreover from this have "terminator_rx (pathD ps) = Some (Fin x)"
      by (simp add: terminator_rx_def)
    moreover have "num_le (Fin x) (lit 44.1)"
      using x(2) by (simp add: lit_norm)
    moreover have "x < disk_radius"
      using x(2) d_bounds(8) by (simp add: disk_radius_def)
    moreover have "simple_path (pathD ps)"
      using nn by (rule pathD_simple)
    ultimately show "\<exists>x sw e. terminator_of (pathD ps) = Some (Arc (Fin x) (Fin 45) 0 0 sw e)
           \<and> terminator_rx (pathD ps) = Some (Fin x)
           \<and> 0 \<le> x \<and> num_le (Fin x) (lit 44.1) \<and> x \<le> d441 \<and> x < disk_radius
           \<and> simple_path (pathD ps)"
      using x by blast
  qed
  have conv: "num_lt (lit 0.01) (p_norm ps) \<and> num_lt (p_norm ps) (lit 0.99)"
    if t: "terminator_of (pathD ps) \<noteq> None" and n: "percent ps \<noteq> NaN"
  proof -
    have "terminator_of FullDisk = None" "terminator_of Empty = None"
      by (simp_all add: terminator_of_def FullDisk_def Empty_def)
    with t have "pathD ps \<noteq> FullDisk" "pathD ps \<noteq> Empty" by auto
    with pathD_cases [OF n]
    obtain q where "p_norm ps = Fin q" "d001 < q" "q < d099" by blast
    then show ?thesis by (simp add: lit_norm)
  qed
  from gen nn conv show ?thesis
    by (metis option.distinct(1))
qed

theorem terminator_rx_bounds_witness:
  "terminator_of (pathD \<lparr>percent = Fin 25, phase = ''Waxing Crescent'', hemisphere = ''Northern''\<rparr>)
     \<noteq> None
   \<and> percent \<lparr>percent = Fin 25, phase = ''Waxing Crescent'', hemisphere = ''Northern''\<rparr> \<noteq> NaN
   \<and> num_lt (lit 0.01) (p_norm \<lparr>percent = Fin 25, phase = ''Waxing Crescent'', hemisphere = ''Northern''\<rparr>)
   \<and> num_lt (p_norm \<lparr>percent = Fin 25, phase = ''Waxing Crescent'', hemisphere = ''Northern''\<rparr>) (lit 0.99)
   \<and> (\<exists>x sw e. terminator_of
          (pathD \<lparr>percent = Fin 25, phase = ''Waxing Crescent'', hemisphere = ''Northern''\<rparr>)
          = Some (Arc (Fin x) (Fin 45) 0 0 sw e)
        \<and> terminator_rx
          (pathD \<lparr>percent = Fin 25, phase = ''Waxing Crescent'', hemisphere = ''Northern''\<rparr>)
          = Some (Fin x)
        \<and> 0 \<le> x \<and> num_le (Fin x) (lit 44.1) \<and> x \<le> d441 \<and> x < disk_radius
        \<and> simple_path
          (pathD \<lparr>percent = Fin 25, phase = ''Waxing Crescent'', hemisphere = ''Northern''\<rparr>))"
proof -
  let ?ps = "\<lparr>percent = Fin 25, phase = ''Waxing Crescent'', hemisphere = ''Northern''\<rparr>"
  have h1: "terminator_of (pathD ?ps) \<noteq> None"
    using pathD_25 [of ?ps] by (simp add: terminator_of_general)
  have h2: "percent ?ps \<noteq> NaN" by simp
  show ?thesis
    using h1 h2 terminator_rx_bounds [of ?ps] by blast
qed

text \<open>
  C10 as stated fails at percent NaN, which gives a lune whose terminator radius is NaN,
  below no bound. Read over the real numbers it also fails at the double next above 1,
  where the radius is the double of \<open>44.1\<close>, which is above the real number 44.1.
\<close>

theorem terminator_rx_bounds_counterexample:
  "terminator_of (pathD \<lparr>percent = NaN, phase = ''Full Moon'', hemisphere = ''Northern''\<rparr>)
     = Some (Arc NaN (Fin 45) 0 0 1 (50, 95))
   \<and> terminator_rx (pathD \<lparr>percent = NaN, phase = ''Full Moon'', hemisphere = ''Northern''\<rparr>)
       = Some NaN
   \<and> \<not> num_le (Fin 0) NaN \<and> \<not> num_le NaN (lit 44.1)
   \<and> round_num (1 + 1 / 2 ^ 52) = Fin (1 + 1 / 2 ^ 52)
   \<and> num_lt (lit 0.01)
       (p_norm \<lparr>percent = Fin (1 + 1 / 2 ^ 52), phase = ''Full Moon'', hemisphere = ''Northern''\<rparr>)
   \<and> num_lt
       (p_norm \<lparr>percent = Fin (1 + 1 / 2 ^ 52), phase = ''Full Moon'', hemisphere = ''Northern''\<rparr>)
       (lit 0.99)
   \<and> terminator_rx
       (pathD \<lparr>percent = Fin (1 + 1 / 2 ^ 52), phase = ''Full Moon'', hemisphere = ''Northern''\<rparr>)
       = Some (Fin d441)
   \<and> 44.1 < d441"
proof -
  let ?n = "\<lparr>percent = NaN, phase = ''Full Moon'', hemisphere = ''Northern''\<rparr>"
  let ?ps = "\<lparr>percent = Fin (1 + 1 / 2 ^ 52), phase = ''Full Moon'', hemisphere = ''Northern''\<rparr>"
  have n: "terminator_of (pathD ?n) = Some (Arc NaN (Fin 45) 0 0 1 (50, 95))"
    using pathD_NaN [of ?n] by (simp add: terminator_of_general litRight_examples)
  then have nr: "terminator_rx (pathD ?n) = Some NaN"
    by (simp add: terminator_rx_def)
  have p: "p_norm ?ps = Fin (5764607523034236 / 2 ^ 59)"
    using round_next_1(1) by (simp add: p_norm_def)
  have g: "num_lt (lit 0.01) (p_norm ?ps)" "num_lt (p_norm ?ps) (lit 0.99)"
    unfolding p by (simp_all add: lit_norm d001_def d099_def)
  have t: "terminator_rx (pathD ?ps) = Some (Fin d441)"
    using pathD_next_1 [of ?ps] by (simp add: terminator_of_general terminator_rx_def)
  have "\<not> num_le (Fin 0) NaN" "\<not> num_le NaN (lit 44.1)"
    by (simp_all add: lit_norm)
  with n nr g t doubles_33_next_1(2) d_bounds(9) show ?thesis
    by blast
qed

subsection \<open>Percents that are not numbers in range\<close>

text \<open>
  C1, as the component has it. For every phase, every hemisphere and every percent other
  than NaN, finite or infinite, the component returns a path that has no NaN component and
  does not intersect itself. It has no step that clamps the percent and none that rejects
  it, but the path is the path of the percent clamped to \<open>[0, 100]\<close>: the thresholds of the
  degenerate cases catch every percent out of range.
\<close>

theorem pathD_not_nan:
  assumes "percent ps \<noteq> NaN"
  shows "nan_free (pathD ps) \<and> simple_path (pathD ps)
       \<and> pathD ps = pathD (ps\<lparr>percent := spec_clamp (percent ps)\<rparr>)"
  using pathD_simple [OF assms] pathD_clamp [OF assms] by simp

theorem pathD_not_nan_witness:
  "percent \<lparr>percent = PosInf, phase = ''Full Moon'', hemisphere = ''Northern''\<rparr> \<noteq> NaN
   \<and> nan_free (pathD \<lparr>percent = PosInf, phase = ''Full Moon'', hemisphere = ''Northern''\<rparr>)
   \<and> simple_path (pathD \<lparr>percent = PosInf, phase = ''Full Moon'', hemisphere = ''Northern''\<rparr>)
   \<and> pathD \<lparr>percent = PosInf, phase = ''Full Moon'', hemisphere = ''Northern''\<rparr>
       = pathD \<lparr>percent = Fin 100, phase = ''Full Moon'', hemisphere = ''Northern''\<rparr>
   \<and> percent \<lparr>percent = Fin 25, phase = ''Waxing Crescent'', hemisphere = ''Northern''\<rparr> \<noteq> NaN
   \<and> nan_free (pathD \<lparr>percent = Fin 25, phase = ''Waxing Crescent'', hemisphere = ''Northern''\<rparr>)
   \<and> simple_path (pathD \<lparr>percent = Fin 25, phase = ''Waxing Crescent'', hemisphere = ''Northern''\<rparr>)"
proof -
  let ?a = "\<lparr>percent = PosInf, phase = ''Full Moon'', hemisphere = ''Northern''\<rparr>"
  let ?b = "\<lparr>percent = Fin 25, phase = ''Waxing Crescent'', hemisphere = ''Northern''\<rparr>"
  have a: "percent ?a \<noteq> NaN" by simp
  have b: "percent ?b \<noteq> NaN" by simp
  from pathD_not_nan [OF a]
  have "nan_free (pathD ?a)" and "simple_path (pathD ?a)"
    and "pathD ?a = pathD \<lparr>percent = Fin 100, phase = ''Full Moon'', hemisphere = ''Northern''\<rparr>"
    by auto
  moreover from pathD_not_nan [OF b]
  have "nan_free (pathD ?b)" and "simple_path (pathD ?b)"
    by auto
  ultimately show ?thesis
    using a b by blast
qed

text \<open>
  C1 as stated fails at percent NaN: every comparison with NaN is false, so neither
  degenerate case is taken, and the terminator arc is built with the radius
  \<open>45 * 2 * Math.abs(0.5 - NaN)\<close>, which is NaN.
\<close>

theorem pathD_nan_counterexample:
  "pathD \<lparr>percent = NaN, phase = ''Full Moon'', hemisphere = ''Northern''\<rparr>
     = [MoveTo (50, 95), Arc (Fin 45) (Fin 45) 0 0 1 (50, 5),
        Arc NaN (Fin 45) 0 0 1 (50, 95), ClosePath]
   \<and> \<not> nan_free (pathD \<lparr>percent = NaN, phase = ''Full Moon'', hemisphere = ''Northern''\<rparr>)"
proof -
  have "pathD \<lparr>percent = NaN, phase = ''Full Moon'', hemisphere = ''Northern''\<rparr>
     = [MoveTo (50, 95), Arc (Fin 45) (Fin 45) 0 0 1 (50, 5),
        Arc NaN (Fin 45) 0 0 1 (50, 95), ClosePath]"
    using pathD_NaN [of "\<lparr>percent = NaN, phase = ''Full Moon'', hemisphere = ''Northern''\<rparr>"]
    by (simp add: litRight_examples outerArc_def)
  then show ?thesis
    by (simp add: nan_free_def)
qed

end
